theory Spec2Isabelle
  imports Complex_Main "HOL-Library.Multiset"
begin

section \<open>Modelling conventions\<close>

text \<open>
  The TypeScript sources are embedded function by function, keeping their names.
  A JavaScript \<^verbatim>\<open>number\<close> that carries chips or percentages is a \<^typ>\<open>rat\<close>: the
  arithmetic is exact, so fractional blinds such as one half are kept as they are and the
  rounding error of IEEE doubles is not part of the model.  Array indices and counts are
  \<^typ>\<open>nat\<close>, rank values are \<^typ>\<open>int\<close>.  A thrown exception is the left injection
  of a sum type.  An array cell that JavaScript would read as \<^verbatim>\<open>undefined\<close> is
  \<^const>\<open>None\<close>; reading a property of it is the error \<open>TypeError\<close>.
\<close>

datatype error = InsufficientCards | DeckExhausted | TypeError | NotANumber

section \<open>Cards and deck (utils/deckUtils.ts)\<close>

datatype Suit = Hearts | Diamonds | Clubs | Spades

datatype Rank = R2 | R3 | R4 | R5 | R6 | R7 | R8 | R9 | RT | RJ | RQ | RK | RA

record Card =
  suit :: Suit
  rank :: Rank

definition SUITS :: "Suit list" where
  "SUITS = [Hearts, Diamonds, Clubs, Spades]"

definition RANKS :: "Rank list" where
  "RANKS = [R2, R3, R4, R5, R6, R7, R8, R9, RT, RJ, RQ, RK, RA]"

definition createDeck :: "Card list" where
  "createDeck = concat (map (\<lambda>s. map (\<lambda>r. \<lparr>suit = s, rank = r\<rparr>) RANKS) SUITS)"

definition dealCards :: "Card list \<Rightarrow> nat \<Rightarrow> error + (Card list \<times> Card list)" where
  "dealCards deck cnt =
     (if cnt > length deck then Inl DeckExhausted
      else Inr (take cnt deck, drop cnt deck))"

fun getRankValue :: "Rank \<Rightarrow> int" where
  "getRankValue R2 = 2"
| "getRankValue R3 = 3"
| "getRankValue R4 = 4"
| "getRankValue R5 = 5"
| "getRankValue R6 = 6"
| "getRankValue R7 = 7"
| "getRankValue R8 = 8"
| "getRankValue R9 = 9"
| "getRankValue RT = 10"
| "getRankValue RJ = 11"
| "getRankValue RQ = 12"
| "getRankValue RK = 13"
| "getRankValue RA = 14"

text \<open>The rank as the string the source stores in \<^verbatim>\<open>card.rank\<close>.\<close>

fun rankStr :: "Rank \<Rightarrow> string" where
  "rankStr R2 = ''2''"
| "rankStr R3 = ''3''"
| "rankStr R4 = ''4''"
| "rankStr R5 = ''5''"
| "rankStr R6 = ''6''"
| "rankStr R7 = ''7''"
| "rankStr R8 = ''8''"
| "rankStr R9 = ''9''"
| "rankStr RT = ''T''"
| "rankStr RJ = ''J''"
| "rankStr RQ = ''Q''"
| "rankStr RK = ''K''"
| "rankStr RA = ''A''"

text \<open>
  \<^verbatim>\<open>[...cards].sort((a, b) => getRankValue(b.rank) - getRankValue(a.rank))\<close>:
  \<^verbatim>\<open>Array.prototype.sort\<close> is stable, so the result is the stable sort by descending
  rank value, which is \<^const>\<open>sort_key\<close> on the negated value.
\<close>

definition sortCardsByRank :: "Card list \<Rightarrow> Card list" where
  "sortCardsByRank cs = sort_key (\<lambda>c. - getRankValue (rank c)) cs"

section \<open>Hand evaluator (utils/handEvaluator.ts)\<close>

datatype HandRanking =
  HighCard | Pair | TwoPair | ThreeOfAKind | Straight | Flush | FullHouse
  | FourOfAKind | StraightFlush | RoyalFlush

record HandEvaluation =
  ranking :: HandRanking
  cards :: "Card option list"
  description :: string

text \<open>\<^verbatim>\<open>xs[0]\<close>: the first cell, \<^verbatim>\<open>undefined\<close> on the empty array.\<close>

definition first :: "'a list \<Rightarrow> 'a option" where
  "first xs = (case xs of [] \<Rightarrow> None | x # _ \<Rightarrow> Some x)"

text \<open>\<^verbatim>\<open>cs[0].rank\<close>, which throws when \<^verbatim>\<open>cs[0]\<close> is \<^verbatim>\<open>undefined\<close>.\<close>

definition rankOfFirst :: "Card option list \<Rightarrow> error + Rank" where
  "rankOfFirst cs = (case cs of Some c # _ \<Rightarrow> Inr (rank c) | _ \<Rightarrow> Inl TypeError)"

text \<open>
  The elements of a list in order of first occurrence: \<^verbatim>\<open>Array.from(new Set(xs))\<close>,
  and the insertion order of the keys of an object.
\<close>

primrec dedup :: "'a list \<Rightarrow> 'a list" where
  "dedup [] = []"
| "dedup (x # xs) = x # filter (\<lambda>y. y \<noteq> x) (dedup xs)"

text \<open>
  \<^verbatim>\<open>getRankCounts\<close> builds an object keyed by rank.  \<^verbatim>\<open>Object.entries\<close> and
  \<^verbatim>\<open>Object.keys\<close> list the integer-like keys (\<^verbatim>\<open>'2'\<close> to \<^verbatim>\<open>'9'\<close>) first, in
  ascending numeric order, and then the other keys (\<^verbatim>\<open>'T'\<close>, \<^verbatim>\<open>'J'\<close>, \<^verbatim>\<open>'Q'\<close>,
  \<^verbatim>\<open>'K'\<close>, \<^verbatim>\<open>'A'\<close>) in the order in which they were inserted.  The object is the
  association list in that order.
\<close>

definition isIndexKey :: "Rank \<Rightarrow> bool" where
  "isIndexKey r = (r \<in> set [R2, R3, R4, R5, R6, R7, R8, R9])"

definition rankKeys :: "Card list \<Rightarrow> Rank list" where
  "rankKeys cs =
     filter (\<lambda>r. r \<in> set (map rank cs)) [R2, R3, R4, R5, R6, R7, R8, R9]
     @ dedup (filter (\<lambda>r. \<not> isIndexKey r) (map rank cs))"

definition getRankCounts :: "Card list \<Rightarrow> (Rank \<times> nat) list" where
  "getRankCounts cs =
     map (\<lambda>r. (r, length (filter (\<lambda>c. rank c = r) cs))) (rankKeys cs)"

subsection \<open>Straight\<close>

fun isConsecutive :: "int list \<Rightarrow> bool" where
  "isConsecutive (x # y # zs) = (x - y = 1 \<and> isConsecutive (y # zs))"
| "isConsecutive _ = True"

text \<open>
  The loop \<^verbatim>\<open>for (i = 0; i <= uniqueRanks.length - 5; i++)\<close> over the windows
  \<^verbatim>\<open>uniqueRanks.slice(i, i + 5)\<close>: the second argument is the suffix
  \<^verbatim>\<open>uniqueRanks.slice(i)\<close>, and the loop ends when fewer than five ranks are left.
\<close>

fun regularStraights :: "Card list \<Rightarrow> Rank list \<Rightarrow> error + HandEvaluation option" where
  "regularStraights sortedCards [] = Inr None"
| "regularStraights sortedCards (r # rs) =
     (if length (r # rs) < 5 then Inr None
      else
        (let fiveRanks = take 5 (r # rs) in
         if isConsecutive (map getRankValue fiveRanks) then
           (let straightCards = map (\<lambda>rk. find (\<lambda>c. rank c = rk) sortedCards) fiveRanks in
            case rankOfFirst straightCards of
              Inl e \<Rightarrow> Inl e
            | Inr hr \<Rightarrow>
                Inr (Some \<lparr>ranking = Straight, cards = straightCards,
                           description = ''Straight, '' @ rankStr hr @ '' high''\<rparr>))
         else regularStraights sortedCards rs))"

definition checkStraight :: "Card list \<Rightarrow> error + HandEvaluation option" where
  "checkStraight cs =
     (let sortedCards = sortCardsByRank cs;
          uniqueRanks = dedup (map rank sortedCards)
      in
        if RA \<in> set uniqueRanks \<and> R2 \<in> set uniqueRanks \<and> R3 \<in> set uniqueRanks
           \<and> R4 \<in> set uniqueRanks \<and> R5 \<in> set uniqueRanks
        then
          Inr (Some \<lparr>ranking = Straight,
                     cards = map (\<lambda>rk. find (\<lambda>c. rank c = rk) sortedCards) [R5, R4, R3, R2, RA],
                     description = ''Straight, 5 high (Wheel)''\<rparr>)
        else regularStraights sortedCards uniqueRanks)"

subsection \<open>Straight flush and royal flush\<close>

fun straightFlushLoop :: "Card list \<Rightarrow> Suit list \<Rightarrow> error + HandEvaluation option" where
  "straightFlushLoop cs [] = Inr None"
| "straightFlushLoop cs (s # ss) =
     (let suitedCards = filter (\<lambda>c. suit c = s) cs in
      if length suitedCards \<ge> 5 then
        (case checkStraight suitedCards of
           Inl e \<Rightarrow> Inl e
         | Inr (Some straight) \<Rightarrow>
             (case rankOfFirst (cards straight) of
                Inl e \<Rightarrow> Inl e
              | Inr hr \<Rightarrow>
                  Inr (Some \<lparr>ranking = StraightFlush, cards = cards straight,
                             description = ''Straight Flush, '' @ rankStr hr @ '' high''\<rparr>))
         | Inr None \<Rightarrow> straightFlushLoop cs ss)
      else straightFlushLoop cs ss)"

definition checkStraightFlush :: "Card list \<Rightarrow> error + HandEvaluation option" where
  "checkStraightFlush cs = straightFlushLoop cs SUITS"

definition checkRoyalFlush :: "Card list \<Rightarrow> error + HandEvaluation option" where
  "checkRoyalFlush cs =
     (case checkStraightFlush cs of
        Inl e \<Rightarrow> Inl e
      | Inr None \<Rightarrow> Inr None
      | Inr (Some straightFlush) \<Rightarrow>
          (case rankOfFirst (cards straightFlush) of
             Inl e \<Rightarrow> Inl e
           | Inr hr \<Rightarrow>
               if hr = RA then
                 Inr (Some \<lparr>ranking = RoyalFlush, cards = cards straightFlush,
                            description = ''Royal Flush''\<rparr>)
               else Inr None))"

subsection \<open>Four of a kind, full house, flush\<close>

definition checkFourOfAKind :: "Card list \<Rightarrow> HandEvaluation option" where
  "checkFourOfAKind cs =
     (case find (\<lambda>(r, cnt). cnt = 4) (getRankCounts cs) of
        None \<Rightarrow> None
      | Some (r, cnt) \<Rightarrow>
          (let fourCards = filter (\<lambda>c. rank c = r) cs;
               kicker = first (sortCardsByRank (filter (\<lambda>c. rank c \<noteq> r) cs))
           in Some \<lparr>ranking = FourOfAKind, cards = map Some fourCards @ [kicker],
                    description = ''Four of a Kind, '' @ rankStr r @ ''s''\<rparr>))"

text \<open>
  One step of the loops of \<^verbatim>\<open>checkFullHouse\<close> that keep the qualifying rank of
  highest value: \<open>excl\<close> is the rank to skip (\<^verbatim>\<open>rank !== threeRank\<close>, always true
  while \<^verbatim>\<open>threeRank\<close> is \<^verbatim>\<open>null\<close>) and \<open>k\<close> the least cnt that qualifies.
\<close>

definition keepHigher :: "Rank option \<Rightarrow> nat \<Rightarrow> Rank \<times> nat \<Rightarrow> Rank option \<Rightarrow> Rank option" where
  "keepHigher excl k e best =
     (case e of (r, cnt) \<Rightarrow>
        if Some r \<noteq> excl \<and> cnt \<ge> k then
          (case best of
             None \<Rightarrow> Some r
           | Some b \<Rightarrow> if getRankValue r > getRankValue b then Some r else best)
        else best)"

definition checkFullHouse :: "Card list \<Rightarrow> HandEvaluation option" where
  "checkFullHouse cs =
     (let rankCounts = getRankCounts cs;
          threeRank = fold (keepHigher None 3) rankCounts None;
          pairRank0 = fold (keepHigher threeRank 2) rankCounts None;
          pairRank =
            (if threeRank \<noteq> None \<and> pairRank0 = None then
               map_option fst (find (\<lambda>(r, cnt). Some r \<noteq> threeRank \<and> cnt \<ge> 3) rankCounts)
             else pairRank0)
      in
        case (threeRank, pairRank) of
          (Some t, Some p) \<Rightarrow>
            (let threeCards = take 3 (filter (\<lambda>c. rank c = t) cs);
                 pairCards = take 2 (filter (\<lambda>c. rank c = p) cs)
             in Some \<lparr>ranking = FullHouse, cards = map Some (threeCards @ pairCards),
                      description = ''Full House, '' @ rankStr t @ ''s over '' @ rankStr p @ ''s''\<rparr>)
        | _ \<Rightarrow> None)"

fun flushLoop :: "Card list \<Rightarrow> Suit list \<Rightarrow> error + HandEvaluation option" where
  "flushLoop cs [] = Inr None"
| "flushLoop cs (s # ss) =
     (let suitedCards = filter (\<lambda>c. suit c = s) cs in
      if length suitedCards \<ge> 5 then
        (let sortedCards = sortCardsByRank suitedCards;
             flushCards = map Some (take 5 sortedCards)
         in case rankOfFirst flushCards of
              Inl e \<Rightarrow> Inl e
            | Inr hr \<Rightarrow>
                Inr (Some \<lparr>ranking = Flush, cards = flushCards,
                           description = ''Flush, '' @ rankStr hr @ '' high''\<rparr>))
      else flushLoop cs ss)"

definition checkFlush :: "Card list \<Rightarrow> error + HandEvaluation option" where
  "checkFlush cs = flushLoop cs SUITS"

subsection \<open>Three of a kind, two pair, pair, high card\<close>

definition checkThreeOfAKind :: "Card list \<Rightarrow> HandEvaluation option" where
  "checkThreeOfAKind cs =
     (case find (\<lambda>(r, cnt). cnt = 3) (getRankCounts cs) of
        None \<Rightarrow> None
      | Some (r, cnt) \<Rightarrow>
          (let threeCards = filter (\<lambda>c. rank c = r) cs;
               kickers = take 2 (sortCardsByRank (filter (\<lambda>c. rank c \<noteq> r) cs))
           in Some \<lparr>ranking = ThreeOfAKind, cards = map Some (threeCards @ kickers),
                    description = ''Three of a Kind, '' @ rankStr r @ ''s''\<rparr>))"

definition checkTwoPair :: "Card list \<Rightarrow> HandEvaluation option" where
  "checkTwoPair cs =
     (let pairs = map fst (filter (\<lambda>(r, cnt). cnt \<ge> 2) (getRankCounts cs)) in
      if length pairs \<ge> 2 then
        (let topTwoPairs = take 2 (sort_key (\<lambda>r. - getRankValue r) pairs);
             pairCards = concat (map (\<lambda>r. take 2 (filter (\<lambda>c. rank c = r) cs)) topTwoPairs);
             kicker = first (sortCardsByRank (filter (\<lambda>c. rank c \<notin> set topTwoPairs) cs))
         in Some \<lparr>ranking = TwoPair, cards = map Some pairCards @ [kicker],
                  description = ''Two Pair, '' @ rankStr (topTwoPairs ! 0) @ ''s and ''
                                @ rankStr (topTwoPairs ! 1) @ ''s''\<rparr>)
      else None)"

definition checkPair :: "Card list \<Rightarrow> HandEvaluation option" where
  "checkPair cs =
     (case find (\<lambda>(r, cnt). cnt = 2) (getRankCounts cs) of
        None \<Rightarrow> None
      | Some (r, cnt) \<Rightarrow>
          (let pairCards = filter (\<lambda>c. rank c = r) cs;
               kickers = take 3 (sortCardsByRank (filter (\<lambda>c. rank c \<noteq> r) cs))
           in Some \<lparr>ranking = Pair, cards = map Some (pairCards @ kickers),
                    description = ''Pair of '' @ rankStr r @ ''s''\<rparr>))"

definition checkHighCard :: "Card list \<Rightarrow> error + HandEvaluation" where
  "checkHighCard cs =
     (let sortedCards = sortCardsByRank cs;
          bestFive = map Some (take 5 sortedCards)
      in case rankOfFirst bestFive of
           Inl e \<Rightarrow> Inl e
         | Inr hr \<Rightarrow>
             Inr \<lparr>ranking = HighCard, cards = bestFive,
                  description = ''High Card, '' @ rankStr hr\<rparr>)"

subsection \<open>Best hand and comparison\<close>

text \<open>
  \<^verbatim>\<open>const h = check(cards); if (h) return h;\<close> followed by the rest of
  \<^verbatim>\<open>findBestHand\<close>: an exception of the check propagates.
\<close>

definition orElse :: "error + HandEvaluation option \<Rightarrow> error + HandEvaluation \<Rightarrow> error + HandEvaluation" where
  "orElse r k = (case r of Inl e \<Rightarrow> Inl e | Inr (Some h) \<Rightarrow> Inr h | Inr None \<Rightarrow> k)"

definition findBestHand :: "Card list \<Rightarrow> error + HandEvaluation" where
  "findBestHand cs =
     orElse (checkRoyalFlush cs)
    (orElse (checkStraightFlush cs)
    (orElse (Inr (checkFourOfAKind cs))
    (orElse (Inr (checkFullHouse cs))
    (orElse (checkFlush cs)
    (orElse (checkStraight cs)
    (orElse (Inr (checkThreeOfAKind cs))
    (orElse (Inr (checkTwoPair cs))
    (orElse (Inr (checkPair cs))
            (checkHighCard cs)))))))))"

definition evaluateHand :: "Card list \<Rightarrow> error + HandEvaluation" where
  "evaluateHand cs = (if length cs < 5 then Inl InsufficientCards else findBestHand cs)"

fun rankingValues :: "HandRanking \<Rightarrow> int" where
  "rankingValues RoyalFlush = 10"
| "rankingValues StraightFlush = 9"
| "rankingValues FourOfAKind = 8"
| "rankingValues FullHouse = 7"
| "rankingValues Flush = 6"
| "rankingValues Straight = 5"
| "rankingValues ThreeOfAKind = 4"
| "rankingValues TwoPair = 3"
| "rankingValues Pair = 2"
| "rankingValues HighCard = 1"

text \<open>
  The loop \<^verbatim>\<open>for (i = 0; i < 5; i++)\<close> of \<^verbatim>\<open>compareHands\<close>: the lists are the
  cells from index \<open>i\<close> on, the number is how many iterations are left.  A missing or
  \<^verbatim>\<open>undefined\<close> cell makes \<^verbatim>\<open>hand.cards[i].rank\<close> throw.
\<close>

fun compareCards :: "Card option list \<Rightarrow> Card option list \<Rightarrow> nat \<Rightarrow> error + int" where
  "compareCards xs ys 0 = Inr 0"
| "compareCards (Some a # xs) (Some b # ys) (Suc n) =
     (if getRankValue (rank a) > getRankValue (rank b) then Inr 1
      else if getRankValue (rank a) < getRankValue (rank b) then Inr (- 1)
      else compareCards xs ys n)"
| "compareCards xs ys (Suc n) = Inl TypeError"

definition compareHands :: "HandEvaluation \<Rightarrow> HandEvaluation \<Rightarrow> error + int" where
  "compareHands hand1 hand2 =
     (let value1 = rankingValues (ranking hand1);
          value2 = rankingValues (ranking hand2)
      in if value1 > value2 then Inr 1
         else if value1 < value2 then Inr (- 1)
         else compareCards (cards hand1) (cards hand2) 5)"

section \<open>Odds calculator (utils/oddsCalculator.ts)\<close>

text \<open>\<^verbatim>\<open>Math.round\<close>: the nearest integer, a tie going up.\<close>

definition mathRound :: "rat \<Rightarrow> int" where
  "mathRound x = \<lfloor>x + 1 / 2\<rfloor>"

text \<open>
  A percentage that may be infinite: \<^verbatim>\<open>callAmount / (potSize + callAmount)\<close> is
  \<^verbatim>\<open>Infinity\<close> or \<^verbatim>\<open>-Infinity\<close> when the divisor is zero and the dividend is not.
\<close>

datatype jsnum = Fin rat | PosInf | NegInf

definition calculatePotOdds :: "rat \<Rightarrow> rat \<Rightarrow> jsnum" where
  "calculatePotOdds potSize callAmount =
     (if callAmount = 0 then Fin 100
      else if potSize + callAmount = 0 then (if callAmount > 0 then PosInf else NegInf)
      else
        (let odds = (callAmount / (potSize + callAmount)) * 100
         in Fin (of_int (mathRound (odds * 10)) / 10)))"

text \<open>\<^verbatim>\<open>x > y\<close> for a finite \<open>x\<close>.\<close>

fun jsGreater :: "rat \<Rightarrow> jsnum \<Rightarrow> bool" where
  "jsGreater x (Fin y) = (x > y)"
| "jsGreater x PosInf = False"
| "jsGreater x NegInf = True"

definition createDummyCards :: "nat \<Rightarrow> Card list" where
  "createDummyCards cnt =
     map (\<lambda>i. \<lparr>suit = Clubs, rank = [R2, R3, R4, R5, R6] ! (i mod 5)\<rparr>) [0..<cnt]"

text \<open>
  The loop of \<^verbatim>\<open>countOuts\<close> over the available cards.  The subtraction
  \<open>5 - length newCommunity\<close> on \<^typ>\<open>nat\<close> is \<^verbatim>\<open>Math.max(0, 5 - newCommunity.length)\<close>.
\<close>

fun outsLoop :: "Card list \<Rightarrow> Card list \<Rightarrow> HandEvaluation \<Rightarrow> Card list \<Rightarrow> nat \<Rightarrow> error + nat" where
  "outsLoop heroCards communityCards currentHand [] outs = Inr outs"
| "outsLoop heroCards communityCards currentHand (c # rest) outs =
     (let newCommunity = communityCards @ [c] in
      case evaluateHand (heroCards @ newCommunity
                         @ createDummyCards (5 - length newCommunity)) of
        Inl e \<Rightarrow> Inl e
      | Inr newHand \<Rightarrow>
          (case compareHands newHand currentHand of
             Inl e \<Rightarrow> Inl e
           | Inr res \<Rightarrow>
               outsLoop heroCards communityCards currentHand rest
                 (if res > 0 then outs + 1 else outs)))"

definition countOuts :: "Card list \<Rightarrow> Card list \<Rightarrow> error + nat" where
  "countOuts heroCards communityCards =
     (if length communityCards \<ge> 5 then Inr 0
      else
        (let knownCards = heroCards @ communityCards;
             fullDeck = createDeck;
             availableCards =
               filter (\<lambda>c. \<not> (\<exists>known \<in> set knownCards.
                                   rank known = rank c \<and> suit known = suit c))
                      fullDeck
         in
           case evaluateHand
                  (if length knownCards \<ge> 5 then knownCards
                   else knownCards @ createDummyCards (5 - length knownCards)) of
             Inl e \<Rightarrow> Inl e
           | Inr currentHand \<Rightarrow>
               outsLoop heroCards communityCards currentHand availableCards 0))"

definition calculateHitProbability :: "rat \<Rightarrow> int \<Rightarrow> rat" where
  "calculateHitProbability outs cardsToCome =
     (if cardsToCome = 1 then min (outs * 2) 100
      else if cardsToCome = 2 then
        (let exactProb = 1 - ((47 - outs) / 47) * ((46 - outs) / 46)
         in of_int (mathRound (exactProb * 100 * 10)) / 10)
      else 0)"

text \<open>
  The spec's words for the two-card case: the exact two-card probability as a percentage,
  and what it means for a number to be that percentage rounded to one decimal.
\<close>

definition twoCardPercent :: "rat \<Rightarrow> rat" where
  "twoCardPercent outs = (1 - (47 - outs) / 47 * ((46 - outs) / 46)) * 100"

definition roundedTo1Decimal :: "rat \<Rightarrow> rat \<Rightarrow> bool" where
  "roundedTo1Decimal y x = ((\<exists>k :: int. y = of_int k / 10) \<and> \<bar>y - x\<bar> \<le> 1 / 20)"

section \<open>Betting engine (types, utils/pokerLogic.ts, hooks/useGameState.ts)\<close>

datatype PlayerPosition = Hero | Opponent1 | Opponent2 | Opponent3

datatype PlayerStyle =
  TightAggressive | LoosePassive | LooseAggressive | TightPassive | UltraAggressive

record PlayerStyleConfig =
  name :: string
  style :: PlayerStyle
  vpip :: rat
  pfr :: rat
  aggression :: rat
  bluffFrequency :: rat

record Player =
  position :: PlayerPosition
  name :: string
  stack :: rat
  holeCards :: "Card list"
  currentBet :: rat
  isFolded :: bool
  isAllIn :: bool
  style :: "PlayerStyle option"

datatype GamePhase = Waiting | Dealing | Betting | Showdown | HandComplete | Analysis

datatype BettingRound = Preflop | Flop | Turn | River

datatype PlayerAction = Fold | Check | Call | Raise | AllIn

record Action =
  player :: PlayerPosition
  playerName :: string
  action :: PlayerAction
  amount :: rat
  timestamp :: nat
  bettingRound :: BettingRound

record BetAction =
  type :: PlayerAction
  amount :: "rat option"

record GameState =
  phase :: GamePhase
  bettingRound :: BettingRound
  pot :: rat
  communityCards :: "Card list"
  players :: "Player list"
  currentPlayerIndex :: nat
  dealerButtonIndex :: nat
  smallBlindIndex :: nat
  bigBlindIndex :: nat
  smallBlind :: rat
  bigBlind :: rat
  currentBet :: rat
  minRaise :: rat
  actionHistory :: "Action list"

definition SMALL_BLIND :: rat where
  "SMALL_BLIND = 1 / 2"

definition BIG_BLIND :: rat where
  "BIG_BLIND = 1"

definition calculateMinRaise :: "rat \<Rightarrow> rat \<Rightarrow> rat \<Rightarrow> rat" where
  "calculateMinRaise curBet lastRaise bb = curBet + max lastRaise bb"

text \<open>
  \<^verbatim>\<open>validateBetAmount\<close> returns \<^verbatim>\<open>{ valid: true }\<close>, here \<^const>\<open>None\<close>, or
  \<^verbatim>\<open>{ valid: false, error }\<close> with one of two messages: \<^verbatim>\<open>'Bet exceeds stack size'\<close>
  and \<^verbatim>\<open>'Minimum raise is ' + minRaise\<close>.
\<close>

datatype BetError = BetExceedsStack | BelowMinimumRaise rat

definition validateBetAmount :: "rat \<Rightarrow> Player \<Rightarrow> rat \<Rightarrow> rat \<Rightarrow> BetError option" where
  "validateBetAmount amt p curBet minR =
     (if amt > stack p then Some BetExceedsStack
      else if amt > curBet \<and> amt < minR \<and> amt < stack p then Some (BelowMinimumRaise minR)
      else None)"

definition canCheck :: "Player \<Rightarrow> rat \<Rightarrow> bool" where
  "canCheck p curBet = (Player.currentBet p = curBet)"

definition getCallAmount :: "Player \<Rightarrow> rat \<Rightarrow> rat" where
  "getCallAmount p curBet = min (curBet - Player.currentBet p) (stack p)"

definition isBettingRoundComplete :: "Player list \<Rightarrow> rat \<Rightarrow> bool" where
  "isBettingRoundComplete ps curBet =
     (let activePlayers = filter (\<lambda>p. \<not> isFolded p \<and> \<not> isAllIn p) ps in
      if length activePlayers = 0 then True
      else if length activePlayers = 1 then True
      else list_all (\<lambda>p. Player.currentBet p = curBet) activePlayers)"

text \<open>
  The \<^verbatim>\<open>while\<close> loop of \<^verbatim>\<open>getNextPlayerIndex\<close>; it ends because \<open>attempts\<close>
  grows up to the number of players.
\<close>

function nextPlayerLoop :: "Player list \<Rightarrow> nat \<Rightarrow> nat \<Rightarrow> nat" where
  "nextPlayerLoop ps nextIndex attempts =
     (if (isFolded (ps ! nextIndex) \<or> isAllIn (ps ! nextIndex)) \<and> attempts < length ps
      then nextPlayerLoop ps ((nextIndex + 1) mod length ps) (attempts + 1)
      else nextIndex)"
  by pat_completeness auto
termination
  by (relation "measure (\<lambda>(ps, nextIndex, attempts). length ps - attempts)") auto

definition getNextPlayerIndex :: "Player list \<Rightarrow> nat \<Rightarrow> nat" where
  "getNextPlayerIndex ps currentIndex =
     nextPlayerLoop ps ((currentIndex + 1) mod length ps) 0"

definition getActivePlayers :: "Player list \<Rightarrow> Player list" where
  "getActivePlayers ps = filter (\<lambda>p. \<not> isFolded p) ps"

definition calculatePot :: "Player list \<Rightarrow> rat \<Rightarrow> rat" where
  "calculatePot ps currentPot = currentPot + fold (\<lambda>p acc. acc + Player.currentBet p) ps 0"

definition collectBets :: "Player list \<Rightarrow> Player list \<times> rat" where
  "collectBets ps =
     (map (\<lambda>p. p\<lparr>Player.currentBet := 0\<rparr>) ps,
      fold (\<lambda>p acc. acc + Player.currentBet p) ps 0)"

record BlindPositions =
  dealer :: nat
  smallBlindSeat :: nat
  bigBlindSeat :: nat

definition getBlindPositions :: "nat \<Rightarrow> nat \<Rightarrow> BlindPositions" where
  "getBlindPositions playerCount dealerIndex =
     (if playerCount = 2 then
        \<lparr>dealer = dealerIndex, smallBlindSeat = dealerIndex,
         bigBlindSeat = (dealerIndex + 1) mod playerCount\<rparr>
      else
        \<lparr>dealer = dealerIndex, smallBlindSeat = (dealerIndex + 1) mod playerCount,
         bigBlindSeat = (dealerIndex + 2) mod playerCount\<rparr>)"

definition getFirstPreFlopPlayer :: "nat \<Rightarrow> nat \<Rightarrow> nat" where
  "getFirstPreFlopPlayer playerCount bbIndex = (bbIndex + 1) mod playerCount"

definition getFirstPostFlopPlayer :: "nat \<Rightarrow> nat \<Rightarrow> nat" where
  "getFirstPostFlopPlayer playerCount dealerIndex =
     (if playerCount = 2 then dealerIndex else (dealerIndex + 1) mod playerCount)"

definition isHandOver :: "Player list \<Rightarrow> bool" where
  "isHandOver ps = (length (getActivePlayers ps) \<le> 1)"

record ActionResult =
  updatedPlayer :: Player
  potIncrease :: rat
  newCurrentBet :: rat

text \<open>\<^verbatim>\<open>if (updatedPlayer.stack === 0) updatedPlayer.isAllIn = true\<close>.\<close>

definition markAllIn :: "Player \<Rightarrow> Player" where
  "markAllIn p = (if stack p = 0 then p\<lparr>isAllIn := True\<rparr> else p)"

definition processPlayerAction :: "BetAction \<Rightarrow> Player \<Rightarrow> GameState \<Rightarrow> ActionResult" where
  "processPlayerAction act p gameState =
     (case type act of
        Fold \<Rightarrow>
          \<lparr>updatedPlayer = p\<lparr>isFolded := True\<rparr>, potIncrease = 0,
           newCurrentBet = GameState.currentBet gameState\<rparr>
      | Check \<Rightarrow>
          \<lparr>updatedPlayer = p, potIncrease = 0,
           newCurrentBet = GameState.currentBet gameState\<rparr>
      | Call \<Rightarrow>
          (let callAmount = min (GameState.currentBet gameState - Player.currentBet p) (stack p)
           in \<lparr>updatedPlayer =
                  markAllIn (p\<lparr>stack := stack p - callAmount,
                               Player.currentBet := Player.currentBet p + callAmount\<rparr>),
                potIncrease = callAmount,
                newCurrentBet = GameState.currentBet gameState\<rparr>)
      | Raise \<Rightarrow>
          (let raiseAmount = min (case BetAction.amount act of None \<Rightarrow> 0 | Some a \<Rightarrow> a) (stack p);
               totalBet = raiseAmount;
               additionalAmount = totalBet - Player.currentBet p
           in \<lparr>updatedPlayer =
                  markAllIn (p\<lparr>stack := stack p - additionalAmount,
                               Player.currentBet := totalBet\<rparr>),
                potIncrease = additionalAmount,
                newCurrentBet = totalBet\<rparr>)
      | AllIn \<Rightarrow>
          (let allInAmount = stack p;
               updated = p\<lparr>stack := 0, Player.currentBet := Player.currentBet p + allInAmount,
                           isAllIn := True\<rparr>
           in \<lparr>updatedPlayer = updated, potIncrease = allInAmount,
                newCurrentBet =
                  (if Player.currentBet updated > GameState.currentBet gameState
                   then Player.currentBet updated
                   else GameState.currentBet gameState)\<rparr>))"

text \<open>The per-hand fields of a player, cleared.\<close>

definition resetPlayer :: "Player \<Rightarrow> Player" where
  "resetPlayer p =
     p\<lparr>holeCards := [], Player.currentBet := 0, isFolded := False, isAllIn := False\<rparr>"

definition resetPlayersForNewHand :: "Player list \<Rightarrow> Player list" where
  "resetPlayersForNewHand ps = map resetPlayer ps"

subsection \<open>The deck hook\<close>

text \<open>
  \<^verbatim>\<open>deal\<close> of \<^verbatim>\<open>useDeck\<close> is \<^verbatim>\<open>dealCards(deck, count).cards\<close> on the deck state
  that the callback closed over; the remaining deck is handed to \<^verbatim>\<open>setDeck\<close> and
  becomes the deck of a later render, so every call of \<^verbatim>\<open>deal\<close> made during one state
  update reads the same deck.  The engine functions below take that deck as an argument;
  the state of the hook itself is not part of the model.
\<close>

definition deal :: "Card list \<Rightarrow> nat \<Rightarrow> error + Card list" where
  "deal deck cnt = (case dealCards deck cnt of Inl e \<Rightarrow> Inl e | Inr (cs, remainingDeck) \<Rightarrow> Inr cs)"

subsection \<open>Starting a hand\<close>

definition postBlind :: "rat \<Rightarrow> Player \<Rightarrow> Player" where
  "postBlind blind p =
     (let amt = min blind (stack p) in
      p\<lparr>stack := stack p - amt, Player.currentBet := amt, isAllIn := (stack p = amt)\<rparr>)"

text \<open>
  The \<^verbatim>\<open>map\<close> over the seats that posts the blinds: the small blind seat is tested
  first, so a seat that is both posts the small blind only.
\<close>

definition postBlinds :: "BlindPositions \<Rightarrow> Player list \<Rightarrow> Player list" where
  "postBlinds blinds ps =
     map (\<lambda>(index, p).
            if index = smallBlindSeat blinds then postBlind SMALL_BLIND p
            else if index = bigBlindSeat blinds then postBlind BIG_BLIND p
            else p) (enumerate 0 ps)"

text \<open>
  The name and style of an AI seat, taken from its style configuration; \<open>aiOpponentsMap\<close>
  is the registry of AI opponents by seat, reduced to their style configurations.
\<close>

definition nameOpponent :: "(PlayerPosition \<Rightarrow> PlayerStyleConfig option) \<Rightarrow> Player \<Rightarrow> Player" where
  "nameOpponent aiOpponentsMap p =
     (if position p \<in> set [Opponent1, Opponent2, Opponent3] then
        (case aiOpponentsMap (position p) of
           Some styleConfig \<Rightarrow>
             p\<lparr>Player.name := PlayerStyleConfig.name styleConfig,
               Player.style := Some (PlayerStyleConfig.style styleConfig)\<rparr>
         | None \<Rightarrow> p)
      else p)"

text \<open>
  \<^verbatim>\<open>startNewHand\<close>: the state update passed to \<^verbatim>\<open>setGameState\<close>.  With no players
  \<^verbatim>\<open>% prev.players.length\<close> is \<^verbatim>\<open>NaN\<close>, which the model reports as an error.
\<close>

definition startNewHand ::
  "Card list \<Rightarrow> (PlayerPosition \<Rightarrow> PlayerStyleConfig option) \<Rightarrow> GameState \<Rightarrow> error + GameState" where
  "startNewHand deck aiOpponentsMap prev =
     (if players prev = [] then Inl NotANumber
      else
        (let newDealerIndex = (dealerButtonIndex prev + 1) mod length (players prev);
             blinds = getBlindPositions (length (players prev)) newDealerIndex;
             resetPlayers0 = map resetPlayer (players prev);
             resetPlayers =
               (if phase prev = Waiting then map (nameOpponent aiOpponentsMap) resetPlayers0
                else resetPlayers0)
         in
           case deal deck 2 of
             Inl e \<Rightarrow> Inl e
           | Inr dealt \<Rightarrow>
               (let playersWithCards = map (\<lambda>p. p\<lparr>holeCards := dealt\<rparr>) resetPlayers;
                    updatedPlayers = postBlinds blinds playersWithCards;
                    firstPlayer = getFirstPreFlopPlayer (length updatedPlayers) (bigBlindSeat blinds)
                in Inr (prev\<lparr>phase := Betting, GameState.bettingRound := Preflop, pot := 0,
                              communityCards := [], players := updatedPlayers,
                              currentPlayerIndex := firstPlayer,
                              dealerButtonIndex := newDealerIndex,
                              smallBlindIndex := smallBlindSeat blinds,
                              bigBlindIndex := bigBlindSeat blinds,
                              GameState.currentBet := BIG_BLIND,
                              minRaise := BIG_BLIND * 2,
                              actionHistory := []\<rparr>))))"

subsection \<open>Applying an action\<close>

text \<open>\<^verbatim>\<open>getNextBettingRound\<close>; \<^const>\<open>None\<close> is \<^verbatim>\<open>'complete'\<close>.\<close>

fun getNextBettingRound :: "BettingRound \<Rightarrow> BettingRound option" where
  "getNextBettingRound Preflop = Some Flop"
| "getNextBettingRound Flop = Some Turn"
| "getNextBettingRound Turn = Some River"
| "getNextBettingRound River = None"

text \<open>
  The community cards of the next round, dealt by \<^verbatim>\<open>deal(3)\<close> or \<^verbatim>\<open>deal(1)\<close>.
  \<^verbatim>\<open>getNextBettingRound\<close> never returns \<^verbatim>\<open>'preflop'\<close>; that case keeps the cards.
\<close>

definition dealCommunity :: "Card list \<Rightarrow> BettingRound \<Rightarrow> Card list \<Rightarrow> error + Card list" where
  "dealCommunity deck nextRound community =
     (if nextRound = Flop then deal deck 3
      else if nextRound = Turn \<or> nextRound = River then
        (case deal deck 1 of Inl e \<Rightarrow> Inl e | Inr cs \<Rightarrow> Inr (community @ cs))
      else Inr community)"

text \<open>
  \<^verbatim>\<open>handlePlayerAction\<close>: the state update passed to \<^verbatim>\<open>setGameState\<close>; \<open>now\<close> is
  \<^verbatim>\<open>Date.now()\<close>.  When \<^verbatim>\<open>currentPlayerIndex\<close> is not a seat, \<^verbatim>\<open>currentPlayer\<close>
  is \<^verbatim>\<open>undefined\<close> and building the action record throws.
\<close>

definition handlePlayerAction :: "nat \<Rightarrow> Card list \<Rightarrow> BetAction \<Rightarrow> GameState \<Rightarrow> error + GameState" where
  "handlePlayerAction now deck act prev =
     (if currentPlayerIndex prev \<ge> length (players prev) then Inl TypeError
      else
        (let currentPlayer = players prev ! currentPlayerIndex prev;
             res = processPlayerAction act currentPlayer prev;
             updatedPlayers = (players prev)[currentPlayerIndex prev := updatedPlayer res];
             actionRecord =
               \<lparr>player = position currentPlayer, playerName = Player.name currentPlayer,
                action = type act,
                amount = (case BetAction.amount act of None \<Rightarrow> 0 | Some a \<Rightarrow> a),
                timestamp = now, bettingRound = GameState.bettingRound prev\<rparr>;
             newPot = pot prev + potIncrease res;
             newMinRaise =
               calculateMinRaise (newCurrentBet res)
                 (newCurrentBet res - GameState.currentBet prev) BIG_BLIND
         in
           if isHandOver updatedPlayers then
             Inr (prev\<lparr>phase := Showdown, players := updatedPlayers, pot := newPot,
                       GameState.currentBet := newCurrentBet res, minRaise := newMinRaise,
                       actionHistory := actionHistory prev @ [actionRecord]\<rparr>)
           else if isBettingRoundComplete updatedPlayers (newCurrentBet res) then
             (case collectBets updatedPlayers of
                (playersAfterCollection, collectedPot) \<Rightarrow>
                  (let totalPot = newPot + collectedPot in
                   case getNextBettingRound (GameState.bettingRound prev) of
                     None \<Rightarrow>
                       Inr (prev\<lparr>phase := Showdown, players := playersAfterCollection,
                                 pot := totalPot, GameState.currentBet := 0,
                                 actionHistory := actionHistory prev @ [actionRecord]\<rparr>)
                   | Some nextRound \<Rightarrow>
                       (case dealCommunity deck nextRound (communityCards prev) of
                          Inl e \<Rightarrow> Inl e
                        | Inr newCommunityCards \<Rightarrow>
                            (let firstPlayer =
                                   getFirstPostFlopPlayer (length playersAfterCollection)
                                     (dealerButtonIndex prev)
                             in Inr (prev\<lparr>GameState.bettingRound := nextRound,
                                           communityCards := newCommunityCards,
                                           players := playersAfterCollection,
                                           pot := totalPot, GameState.currentBet := 0,
                                           minRaise := BIG_BLIND,
                                           currentPlayerIndex := firstPlayer,
                                           actionHistory :=
                                             actionHistory prev @ [actionRecord]\<rparr>)))))
           else
             (let nextPlayerIndex = getNextPlayerIndex updatedPlayers (currentPlayerIndex prev)
              in Inr (prev\<lparr>players := updatedPlayers, pot := newPot,
                            GameState.currentBet := newCurrentBet res, minRaise := newMinRaise,
                            currentPlayerIndex := nextPlayerIndex,
                            actionHistory := actionHistory prev @ [actionRecord]\<rparr>))))"

text \<open>A sequence of actions, applied in order; the first exception ends the run.\<close>

fun applyActions :: "nat \<Rightarrow> Card list \<Rightarrow> BetAction list \<Rightarrow> GameState \<Rightarrow> error + GameState" where
  "applyActions now deck [] s = Inr s"
| "applyActions now deck (a # as) s =
     (case handlePlayerAction now deck a s of
        Inl e \<Rightarrow> Inl e
      | Inr s' \<Rightarrow> applyActions now deck as s')"

section \<open>AI opponent (services/ai/handStrength.ts, playerStyles.ts, AIOpponent.ts)\<close>

datatype HandStrength = Premium | Strong | Playable | Weak | Trash

definition preFlopScore :: "Card \<Rightarrow> Card \<Rightarrow> rat" where
  "preFlopScore card1 card2 =
     (let rank1 = getRankValue (rank card1);
          rank2 = getRankValue (rank card2);
          suited = (suit card1 = suit card2);
          isPair = (rank1 = rank2);
          highCard = max rank1 rank2;
          lowCard = min rank1 rank2;
          gap = highCard - lowCard
      in
        if isPair then
          (if rank1 \<ge> 14 then 95
           else if rank1 \<ge> 13 then 90
           else if rank1 \<ge> 12 then 85
           else if rank1 \<ge> 11 then 80
           else if rank1 \<ge> 10 then 75
           else if rank1 \<ge> 7 then 65
           else 50 + of_int rank1 * 2)
        else if highCard = 14 then
          (if lowCard \<ge> 13 then (if suited then 88 else 82)
           else if lowCard \<ge> 12 then (if suited then 78 else 72)
           else if lowCard \<ge> 11 then (if suited then 73 else 67)
           else if lowCard \<ge> 10 then (if suited then 68 else 62)
           else if lowCard \<ge> 7 then (if suited then 55 else 45)
           else (if suited then 45 else 30))
        else if highCard = 13 then
          (if lowCard \<ge> 12 then (if suited then 76 else 70)
           else if lowCard \<ge> 11 then (if suited then 71 else 65)
           else if lowCard \<ge> 10 then (if suited then 66 else 58)
           else if lowCard \<ge> 9 then (if suited then 58 else 48)
           else (if suited then 48 else 35))
        else if highCard = 12 then
          (if lowCard \<ge> 11 then (if suited then 69 else 63)
           else if lowCard \<ge> 10 then (if suited then 64 else 56)
           else if lowCard \<ge> 9 then (if suited then 56 else 46)
           else (if suited then 46 else 33))
        else if highCard = 11 then
          (if lowCard \<ge> 10 then (if suited then 62 else 54)
           else if lowCard \<ge> 9 then (if suited then 54 else 44)
           else (if suited then 44 else 31))
        else if gap = 0 then
          (if suited then 40 + of_int highCard * 2 else 30 + of_int highCard * 2)
        else if gap = 1 then
          (if suited then 35 + of_int highCard else 25 + of_int highCard)
        else if suited then 30 + of_int highCard
        else 15 + of_int highCard)"

definition strengthOfScore :: "rat \<Rightarrow> HandStrength" where
  "strengthOfScore score =
     (if score \<ge> 80 then Premium
      else if score \<ge> 65 then Strong
      else if score \<ge> 45 then Playable
      else if score \<ge> 30 then Weak
      else Trash)"

definition evaluatePreFlopHand :: "Card \<Rightarrow> Card \<Rightarrow> HandStrength \<times> rat" where
  "evaluatePreFlopHand card1 card2 =
     (let score = preFlopScore card1 card2 in (strengthOfScore score, score))"

datatype PositionCategory = Early | Middle | Late | Button

text \<open>The remainder \<^verbatim>\<open>a % b\<close> of JavaScript takes the sign of \<open>a\<close>.\<close>

definition jsRem :: "int \<Rightarrow> int \<Rightarrow> int" where
  "jsRem a b = (if a \<ge> 0 then a mod \<bar>b\<bar> else - ((- a) mod \<bar>b\<bar>))"

definition getPositionCategory :: "int \<Rightarrow> int \<Rightarrow> int \<Rightarrow> PositionCategory" where
  "getPositionCategory playerIndex dealerIndex totalPlayers =
     (let seatsAfterDealer = jsRem (playerIndex - dealerIndex + totalPlayers) totalPlayers in
      if seatsAfterDealer = 0 then Button
      else if seatsAfterDealer = 1 \<or> seatsAfterDealer = 2 then Early
      else if totalPlayers = 4 then (if seatsAfterDealer = 3 then Late else Middle)
      else if seatsAfterDealer \<le> 3 then Early
      else if seatsAfterDealer \<le> 5 then Middle
      else Late)"

definition shouldPlayHand :: "rat \<Rightarrow> rat \<Rightarrow> rat \<Rightarrow> bool" where
  "shouldPlayHand handScore vpipPct positionAdjustment =
     (let adjustedScore = handScore * positionAdjustment;
          threshold = (100 - vpipPct) * (95 / 100)
      in adjustedScore \<ge> threshold)"

definition shouldRaiseHand :: "rat \<Rightarrow> rat \<Rightarrow> rat \<Rightarrow> bool" where
  "shouldRaiseHand handScore pfrPct positionAdjustment =
     (let adjustedScore = handScore * positionAdjustment;
          threshold = (100 - pfrPct) * (95 / 100)
      in adjustedScore \<ge> threshold)"

definition PLAYER_STYLES :: "PlayerStyle \<Rightarrow> PlayerStyleConfig" where
  "PLAYER_STYLES st =
     (case st of
        TightAggressive \<Rightarrow>
          \<lparr>PlayerStyleConfig.name = ''Sharky'', PlayerStyleConfig.style = TightAggressive, vpip = 20, pfr = 18,
           aggression = 7, bluffFrequency = 25 / 100\<rparr>
      | LoosePassive \<Rightarrow>
          \<lparr>PlayerStyleConfig.name = ''Fishy'', PlayerStyleConfig.style = LoosePassive, vpip = 45, pfr = 10,
           aggression = 2, bluffFrequency = 5 / 100\<rparr>
      | LooseAggressive \<Rightarrow>
          \<lparr>PlayerStyleConfig.name = ''Donkey'', PlayerStyleConfig.style = LooseAggressive, vpip = 50, pfr = 35,
           aggression = 8, bluffFrequency = 4 / 10\<rparr>
      | TightPassive \<Rightarrow>
          \<lparr>PlayerStyleConfig.name = ''Grinder'', PlayerStyleConfig.style = TightPassive, vpip = 15, pfr = 8,
           aggression = 3, bluffFrequency = 1 / 10\<rparr>
      | UltraAggressive \<Rightarrow>
          \<lparr>PlayerStyleConfig.name = ''Maniac'', PlayerStyleConfig.style = UltraAggressive, vpip = 65, pfr = 50,
           aggression = 10, bluffFrequency = 1 / 2\<rparr>)"

subsection \<open>The decision\<close>

text \<open>
  \<^verbatim>\<open>Math.random()\<close> is an input: the argument \<open>rnd\<close> gives the value of the
  \<open>i\<close>-th call made during one decision, counted from 0 in the order of the calls.
\<close>

definition getPositionMultiplier :: "PositionCategory \<Rightarrow> rat" where
  "getPositionMultiplier pos =
     (case pos of Early \<Rightarrow> 8 / 10 | Middle \<Rightarrow> 9 / 10 | Late \<Rightarrow> 11 / 10 | Button \<Rightarrow> 12 / 10)"

definition determineRaiseSize :: "PlayerStyleConfig \<Rightarrow> Player \<Rightarrow> rat \<Rightarrow> rat \<Rightarrow> BetAction" where
  "determineRaiseSize cfg p potSize handStrength =
     (let raiseMultiplier =
            (if handStrength \<ge> 85 then 75 / 100 + (aggression cfg / 10) * (15 / 10)
             else if handStrength \<ge> 70 then 5 / 10 + (aggression cfg / 10) * 1
             else 33 / 100 + (aggression cfg / 10) * (67 / 100));
          raiseAmount = of_int \<lfloor>potSize * raiseMultiplier\<rfloor>;
          cappedRaise = min raiseAmount (stack p)
      in \<lparr>type = Raise, amount = Some cappedRaise\<rparr>)"

definition shouldBeAggressive :: "PlayerStyleConfig \<Rightarrow> rat \<Rightarrow> bool" where
  "shouldBeAggressive cfg r = (r > (10 - aggression cfg) / 10)"

definition shouldCall :: "PlayerStyleConfig \<Rightarrow> rat \<Rightarrow> rat \<Rightarrow> rat \<Rightarrow> bool" where
  "shouldCall cfg callAmount potSize handStrength =
     (let potOdds = calculatePotOdds potSize callAmount;
          callThreshold = 100 - vpip cfg
      in handStrength \<ge> callThreshold \<or> jsGreater handStrength potOdds)"

definition hasThreeToFlush :: "Card list \<Rightarrow> bool" where
  "hasThreeToFlush cs = (\<exists>s \<in> set (map suit cs). length (filter (\<lambda>c. suit c = s) cs) \<ge> 3)"

text \<open>The loop over \<open>i\<close> with \<^verbatim>\<open>ranks[i + 2] - ranks[i] <= 4\<close>, on the suffix from \<open>i\<close>.\<close>

fun within5 :: "int list \<Rightarrow> bool" where
  "within5 (a # b # c # rest) = (c - a \<le> 4 \<or> within5 (b # c # rest))"
| "within5 _ = False"

definition hasThreeToStraight :: "Card list \<Rightarrow> bool" where
  "hasThreeToStraight cs =
     (if length cs < 3 then False
      else within5 (sort (map (\<lambda>c. getRankValue (rank c)) cs)))"

definition shouldBluff :: "PlayerStyleConfig \<Rightarrow> rat \<Rightarrow> Card list \<Rightarrow> bool" where
  "shouldBluff cfg r communityCs =
     (let bluffBonus = (if hasThreeToFlush communityCs \<or> hasThreeToStraight communityCs
                        then 2 / 10 else 0)
      in r < bluffFrequency cfg + bluffBonus)"

fun estimateHandStrength :: "HandRanking \<Rightarrow> rat" where
  "estimateHandStrength RoyalFlush = 100"
| "estimateHandStrength StraightFlush = 95"
| "estimateHandStrength FourOfAKind = 90"
| "estimateHandStrength FullHouse = 85"
| "estimateHandStrength Flush = 75"
| "estimateHandStrength Straight = 70"
| "estimateHandStrength ThreeOfAKind = 60"
| "estimateHandStrength TwoPair = 50"
| "estimateHandStrength Pair = 35"
| "estimateHandStrength HighCard = 20"

definition decidePreFlop ::
  "PlayerStyleConfig \<Rightarrow> (nat \<Rightarrow> rat) \<Rightarrow> Player \<Rightarrow> rat \<Rightarrow> rat \<Rightarrow> int \<Rightarrow> int \<Rightarrow> error + BetAction" where
  "decidePreFlop cfg rnd p curBet potSize playerIndex dealerIndex =
     (case holeCards p of
        card1 # card2 # _ \<Rightarrow>
          (let score = snd (evaluatePreFlopHand card1 card2);
               pos = getPositionCategory playerIndex dealerIndex 4;
               positionMultiplier = getPositionMultiplier pos;
               adjustedScore = score * positionMultiplier;
               shouldPlay = shouldPlayHand score (vpip cfg) positionMultiplier
           in
             if \<not> shouldPlay then Inr \<lparr>type = Fold, amount = None\<rparr>
             else
               (let shouldRaise = shouldRaiseHand score (pfr cfg) positionMultiplier;
                    callAmount = curBet - Player.currentBet p
                in
                  if curBet = Player.currentBet p then
                    (if shouldRaise \<and> shouldBeAggressive cfg (rnd 0)
                     then Inr (determineRaiseSize cfg p potSize adjustedScore)
                     else Inr \<lparr>type = Check, amount = None\<rparr>)
                  else if shouldRaise \<and> adjustedScore \<ge> 75 then
                    Inr (determineRaiseSize cfg p potSize adjustedScore)
                  else if adjustedScore \<ge> 50 \<or> shouldCall cfg callAmount potSize adjustedScore then
                    Inr \<lparr>type = Call, amount = Some callAmount\<rparr>
                  else Inr \<lparr>type = Fold, amount = None\<rparr>))
      | _ \<Rightarrow> Inl TypeError)"

definition decidePostFlop ::
  "PlayerStyleConfig \<Rightarrow> (nat \<Rightarrow> rat) \<Rightarrow> Player \<Rightarrow> rat \<Rightarrow> rat \<Rightarrow> Card list \<Rightarrow> error + BetAction" where
  "decidePostFlop cfg rnd p curBet potSize communityCs =
     (case evaluateHand (holeCards p @ communityCs) of
        Inl e \<Rightarrow> Inl e
      | Inr myHand \<Rightarrow>
          (let handStrength = estimateHandStrength (ranking myHand);
               callAmount = curBet - Player.currentBet p;
               potOdds = calculatePotOdds potSize callAmount;
               estimatedEquity = handStrength;
               bluff = shouldBluff cfg (rnd 0) communityCs
           in
             Inr (if curBet = Player.currentBet p then
                    (if handStrength \<ge> 60 \<and> shouldBeAggressive cfg (rnd 1) then
                       determineRaiseSize cfg p potSize handStrength
                     else if bluff \<and> aggression cfg \<ge> 6 then
                       \<lparr>type = Raise, amount = Some (of_int \<lfloor>potSize * (5 / 10)\<rfloor>)\<rparr>
                     else \<lparr>type = Check, amount = None\<rparr>)
                  else if handStrength \<ge> 75 then
                    (if shouldBeAggressive cfg (rnd 1) then
                       determineRaiseSize cfg p potSize handStrength
                     else \<lparr>type = Call, amount = Some callAmount\<rparr>)
                  else if handStrength \<ge> 50 then
                    (if shouldBeAggressive cfg (rnd 1) \<and> rnd 2 < 3 / 10 then
                       determineRaiseSize cfg p potSize handStrength
                     else \<lparr>type = Call, amount = Some callAmount\<rparr>)
                  else if jsGreater estimatedEquity potOdds \<or> bluff then
                    (if bluff \<and> rnd 1 < bluffFrequency cfg then
                       determineRaiseSize cfg p potSize 40
                     else \<lparr>type = Call, amount = Some callAmount\<rparr>)
                  else \<lparr>type = Fold, amount = None\<rparr>)))"

text \<open>\<^verbatim>\<open>players.findIndex(...)\<close>: the first index that satisfies the test, or \<open>-1\<close>.\<close>

fun findIndexFrom :: "('a \<Rightarrow> bool) \<Rightarrow> 'a list \<Rightarrow> int \<Rightarrow> int" where
  "findIndexFrom P [] i = - 1"
| "findIndexFrom P (x # xs) i = (if P x then i else findIndexFrom P xs (i + 1))"

definition decide :: "PlayerStyleConfig \<Rightarrow> (nat \<Rightarrow> rat) \<Rightarrow> Player \<Rightarrow> GameState \<Rightarrow> error + BetAction" where
  "decide cfg rnd p gameState =
     (let playerIndex = findIndexFrom (\<lambda>q. position q = position p) (players gameState) 0;
          dealerIndex = int (dealerButtonIndex gameState)
      in
        if GameState.bettingRound gameState = Preflop then
          decidePreFlop cfg rnd p (GameState.currentBet gameState) (pot gameState)
            playerIndex dealerIndex
        else
          decidePostFlop cfg rnd p (GameState.currentBet gameState) (pot gameState)
            (communityCards gameState))"

section \<open>Tables used as examples\<close>

definition freshPlayer :: "PlayerPosition \<Rightarrow> string \<Rightarrow> rat \<Rightarrow> Player" where
  "freshPlayer pos nm st =
     \<lparr>position = pos, name = nm, stack = st, holeCards = [], currentBet = 0,
      isFolded = False, isAllIn = False, style = None\<rparr>"

text \<open>\<^verbatim>\<open>initializeGame\<close>, with the four random stacks as arguments.\<close>

definition initializeGame :: "rat \<Rightarrow> rat \<Rightarrow> rat \<Rightarrow> rat \<Rightarrow> GameState" where
  "initializeGame s0 s1 s2 s3 =
     (let ps = [freshPlayer Hero ''Hero'' s0, freshPlayer Opponent1 ''Opponent 1'' s1,
                freshPlayer Opponent2 ''Opponent 2'' s2, freshPlayer Opponent3 ''Opponent 3'' s3];
          blinds = getBlindPositions (length ps) 0
      in \<lparr>phase = Waiting, bettingRound = Preflop, pot = 0, communityCards = [],
          players = ps, currentPlayerIndex = 0, dealerButtonIndex = dealer blinds,
          smallBlindIndex = smallBlindSeat blinds, bigBlindIndex = bigBlindSeat blinds,
          smallBlind = SMALL_BLIND, bigBlind = BIG_BLIND, currentBet = 0,
          minRaise = BIG_BLIND * 2, actionHistory = []\<rparr>)"

definition noStyles :: "PlayerPosition \<Rightarrow> PlayerStyleConfig option" where
  "noStyles pos = None"

text \<open>
  Four players with 100 chips each and the button at seat 3, so that the hand started
  from this table has its dealer at seat 0.
\<close>

definition tableButtonAt3 :: GameState where
  "tableButtonAt3 = (initializeGame 100 100 100 100)\<lparr>dealerButtonIndex := 3\<rparr>"

text \<open>The state of a run that did not throw.\<close>

definition stateOf :: "error + GameState \<Rightarrow> GameState" where
  "stateOf r = (case r of Inr s \<Rightarrow> s | Inl e \<Rightarrow> initializeGame 0 0 0 0)"

text \<open>
  The hand started from \<open>tableButtonAt3\<close>: dealer seat 0, blinds at seats 1 and 2, seat 3
  first to act; then seat 3 calls, seat 0 calls, and the small blind calls or folds.
\<close>

definition startedHand :: GameState where
  "startedHand = stateOf (startNewHand createDeck noStyles tableButtonAt3)"

definition callAction :: BetAction where
  "callAction = \<lparr>type = Call, amount = None\<rparr>"

definition foldAction :: BetAction where
  "foldAction = \<lparr>type = Fold, amount = None\<rparr>"

definition afterOneCall :: GameState where
  "afterOneCall = stateOf (handlePlayerAction 0 createDeck callAction startedHand)"

definition afterTwoCalls :: GameState where
  "afterTwoCalls = stateOf (handlePlayerAction 0 createDeck callAction afterOneCall)"

definition afterThreeCalls :: GameState where
  "afterThreeCalls = stateOf (handlePlayerAction 0 createDeck callAction afterTwoCalls)"

definition afterSmallBlindFolds :: GameState where
  "afterSmallBlindFolds = stateOf (handlePlayerAction 0 createDeck foldAction afterTwoCalls)"

text \<open>The chips in front of the players, and the chips that left the stacks since \<open>s0\<close>.\<close>

definition streetBets :: "GameState \<Rightarrow> rat" where
  "streetBets s = sum_list (map Player.currentBet (players s))"

definition chipsWagered :: "GameState \<Rightarrow> GameState \<Rightarrow> rat" where
  "chipsWagered s0 s = sum_list (map stack (players s0)) - sum_list (map stack (players s))"

text \<open>A seat with 10 chips behind and 5 already bet on this street, and two raises.\<close>

definition seatWith10Behind :: Player where
  "seatWith10Behind = (freshPlayer Opponent1 ''Opponent 1'' 10)\<lparr>Player.currentBet := 5\<rparr>"

definition raiseTo15 :: BetAction where
  "raiseTo15 = \<lparr>type = Raise, amount = Some 15\<rparr>"

definition raiseTo3 :: BetAction where
  "raiseTo3 = \<lparr>type = Raise, amount = Some 3\<rparr>"

text \<open>A shuffled deck with two aces on top, and the hand dealt from it.\<close>

definition acesOnTop :: "Card list" where
  "acesOnTop =
     \<lparr>suit = Hearts, rank = RA\<rparr> # \<lparr>suit = Spades, rank = RA\<rparr>
     # filter (\<lambda>c. c \<noteq> \<lparr>suit = Hearts, rank = RA\<rparr> \<and> c \<noteq> \<lparr>suit = Spades, rank = RA\<rparr>)
         createDeck"

definition handWithAces :: GameState where
  "handWithAces = stateOf (startNewHand acesOnTop noStyles tableButtonAt3)"

definition maniac :: PlayerStyleConfig where
  "maniac = PLAYER_STYLES UltraAggressive"

definition drawsAllZero :: "nat \<Rightarrow> rat" where
  "drawsAllZero i = 0"

text \<open>
  A flop with 100 in the pot and nothing bet yet; the seat to act holds 30 chips and a
  pair of aces, with a third ace on the board.
\<close>

definition shortStack :: Player where
  "shortStack =
     (freshPlayer Opponent3 ''Opponent 3'' 30)
       \<lparr>holeCards := [\<lparr>suit = Hearts, rank = RA\<rparr>, \<lparr>suit = Spades, rank = RA\<rparr>]\<rparr>"

definition flopSpot :: GameState where
  "flopSpot =
     (initializeGame 100 100 100 30)
       \<lparr>phase := Betting, GameState.bettingRound := Flop, pot := 100,
        communityCards := [\<lparr>suit = Diamonds, rank = RA\<rparr>, \<lparr>suit = Clubs, rank = RK\<rparr>,
                           \<lparr>suit = Spades, rank = R7\<rparr>],
        players := [freshPlayer Hero ''Hero'' 100, freshPlayer Opponent1 ''Opponent 1'' 100,
                    freshPlayer Opponent2 ''Opponent 2'' 100, shortStack],
        currentPlayerIndex := 3, GameState.currentBet := 0, minRaise := 1\<rparr>"

text \<open>
  The same flop for a seat without a made hand: with every draw at 0 the seat bluffs.
\<close>

definition shortStackBluffer :: Player where
  "shortStackBluffer =
     (freshPlayer Opponent3 ''Opponent 3'' 30)
       \<lparr>holeCards := [\<lparr>suit = Hearts, rank = R2\<rparr>, \<lparr>suit = Spades, rank = R9\<rparr>]\<rparr>"

definition bluffSpot :: GameState where
  "bluffSpot =
     flopSpot\<lparr>players := [freshPlayer Hero ''Hero'' 100, freshPlayer Opponent1 ''Opponent 1'' 100,
                          freshPlayer Opponent2 ''Opponent 2'' 100, shortStackBluffer]\<rparr>"

text \<open>
  The same flop with 14 in the pot and a bet of 10 to call, so that the minimum raise is
  20; the seat to act holds 100 chips and a pair of aces.
\<close>

definition deepStack :: Player where
  "deepStack =
     (freshPlayer Opponent3 ''Opponent 3'' 100)
       \<lparr>holeCards := [\<lparr>suit = Hearts, rank = RA\<rparr>, \<lparr>suit = Spades, rank = RA\<rparr>]\<rparr>"

definition flopFacingBet :: GameState where
  "flopFacingBet =
     flopSpot\<lparr>pot := 14,
              players := [freshPlayer Hero ''Hero'' 100, freshPlayer Opponent1 ''Opponent 1'' 100,
                          freshPlayer Opponent2 ''Opponent 2'' 100, deepStack],
              GameState.currentBet := 10, minRaise := 20\<rparr>"

definition drawsAllTenth :: "nat \<Rightarrow> rat" where
  "drawsAllTenth i = 1 / 10"

section \<open>Notions used in the properties of the evaluator\<close>

text \<open>How many cards of a rank a list holds.\<close>

abbreviation rankCount :: "Card list \<Rightarrow> Rank \<Rightarrow> nat" where
  "rankCount cs r \<equiv> length (filter (\<lambda>c. rank c = r) cs)"

text \<open>A hand made of exactly five cards, each one a card of the list \<open>cs\<close>.\<close>

definition fiveOf :: "Card list \<Rightarrow> HandEvaluation \<Rightarrow> bool" where
  "fiveOf cs h = (length (cards h) = 5 \<and> set (cards h) \<subseteq> Some ` set cs)"

text \<open>
  An entry of the rank counts that a loop of \<^verbatim>\<open>checkFullHouse\<close> considers; the ranks
  the first two loops end with; the ranks \<^verbatim>\<open>checkTwoPair\<close> collects and keeps.
\<close>

definition qualifies :: "Rank option \<Rightarrow> nat \<Rightarrow> Rank \<times> nat \<Rightarrow> bool" where
  "qualifies excl k e = (Some (fst e) \<noteq> excl \<and> snd e \<ge> k)"

definition threeRankOf :: "Card list \<Rightarrow> Rank option" where
  "threeRankOf cs = fold (keepHigher None 3) (getRankCounts cs) None"

definition pairRankOf :: "Card list \<Rightarrow> Rank option" where
  "pairRankOf cs = fold (keepHigher (threeRankOf cs) 2) (getRankCounts cs) None"

definition pairsOf :: "Card list \<Rightarrow> Rank list" where
  "pairsOf cs = map fst (filter (\<lambda>(r, n). n \<ge> 2) (getRankCounts cs))"

definition topTwoOf :: "Card list \<Rightarrow> Rank list" where
  "topTwoOf cs = take 2 (sort_key (\<lambda>r. - getRankValue r) (pairsOf cs))"

text \<open>
  What a comparison can see of a hand: its ranking, the ranks of its five cards in order,
  and its description.  Two results of a check agree when they throw the same error, both
  find nothing, or find hands that agree in this sense.
\<close>

definition rankSig :: "HandEvaluation \<Rightarrow> HandRanking \<times> Rank option list \<times> string" where
  "rankSig h = (ranking h, map (map_option rank) (cards h), description h)"

definition firstRankSig :: "Rank option list \<Rightarrow> error + Rank" where
  "firstRankSig rs = (case rs of Some r # _ \<Rightarrow> Inr r | _ \<Rightarrow> Inl TypeError)"

definition sameSig :: "error + HandEvaluation option \<Rightarrow> error + HandEvaluation option \<Rightarrow> bool" where
  "sameSig r1 r2 = (map_sum id (map_option rankSig) r1 = map_sum id (map_option rankSig) r2)"

definition sameResult :: "error + HandEvaluation \<Rightarrow> error + HandEvaluation \<Rightarrow> bool" where
  "sameResult r1 r2 = (map_sum id rankSig r1 = map_sum id rankSig r2)"

text \<open>\<^const>\<open>compareCards\<close> on the ranks of the cards alone.\<close>

fun compareRanks :: "Rank option list \<Rightarrow> Rank option list \<Rightarrow> nat \<Rightarrow> error + int" where
  "compareRanks xs ys 0 = Inr 0"
| "compareRanks (Some a # xs) (Some b # ys) (Suc n) =
     (if getRankValue a > getRankValue b then Inr 1
      else if getRankValue a < getRankValue b then Inr (- 1)
      else compareRanks xs ys n)"
| "compareRanks xs ys (Suc n) = Inl TypeError"


text \<open>Hands used as examples.\<close>

definition fiveCardWheel :: "Card list" where
  "fiveCardWheel =
     [\<lparr>suit = Hearts, rank = RA\<rparr>, \<lparr>suit = Clubs, rank = R2\<rparr>,
      \<lparr>suit = Diamonds, rank = R3\<rparr>, \<lparr>suit = Spades, rank = R4\<rparr>,
      \<lparr>suit = Hearts, rank = R5\<rparr>]"




text \<open>Two orders of the same six cards; the two nines change places.\<close>

definition nineHighA :: "Card list" where
  "nineHighA = [\<lparr>suit = Hearts, rank = R9\<rparr>, \<lparr>suit = Diamonds, rank = R9\<rparr>,
                \<lparr>suit = Clubs, rank = R8\<rparr>, \<lparr>suit = Clubs, rank = R7\<rparr>,
                \<lparr>suit = Clubs, rank = R6\<rparr>, \<lparr>suit = Spades, rank = R5\<rparr>]"

definition nineHighB :: "Card list" where
  "nineHighB = [\<lparr>suit = Diamonds, rank = R9\<rparr>, \<lparr>suit = Hearts, rank = R9\<rparr>,
                \<lparr>suit = Clubs, rank = R8\<rparr>, \<lparr>suit = Clubs, rank = R7\<rparr>,
                \<lparr>suit = Clubs, rank = R6\<rparr>, \<lparr>suit = Spades, rank = R5\<rparr>]"

text \<open>Ace and king of hearts on a flop of three cards and on a board of five.\<close>

definition heroAceKing :: "Card list" where
  "heroAceKing = [\<lparr>suit = Hearts, rank = RA\<rparr>, \<lparr>suit = Hearts, rank = RK\<rparr>]"

definition flopBoard :: "Card list" where
  "flopBoard =
     [\<lparr>suit = Hearts, rank = R9\<rparr>, \<lparr>suit = Hearts, rank = R7\<rparr>,
      \<lparr>suit = Spades, rank = R2\<rparr>]"

definition riverBoard :: "Card list" where
  "riverBoard = flopBoard @ [\<lparr>suit = Clubs, rank = RJ\<rparr>, \<lparr>suit = Diamonds, rank = R3\<rparr>]"

section \<open>Properties\<close>

subsection \<open>Hit probability\<close>

lemma mathRound_close: "\<bar>of_int (mathRound (x * 10)) / 10 - x\<bar> \<le> 1 / 20"
proof -
  define n where "n = \<lfloor>x * 10 + 1 / 2\<rfloor>"
  have "of_int n \<le> x * 10 + 1 / 2" "x * 10 + 1 / 2 < of_int n + 1"
    unfolding n_def by linarith+
  then have "\<bar>of_int n / 10 - x\<bar> \<le> 1 / 20" by linarith
  then show ?thesis unfolding mathRound_def n_def .
qed

text \<open>
  Claim C7.  For every non-negative integer number of outs, \<^verbatim>\<open>calculateHitProbability\<close>
  with one card to come returns \<open>min (outs * 2) 100\<close>; with two cards to come it returns
  the exact two-card probability \<open>1 - (47 - outs) / 47 * (46 - outs) / 46\<close> as a percentage
  rounded to one decimal, that is a multiple of one tenth within one twentieth of the
  percentage.  For 8 outs and one card the result is 16; for 9 outs and two cards it is
  within 0.2 of 35.  The arithmetic is exact rational arithmetic.
\<close>

theorem calculateHitProbability_spec:
  "calculateHitProbability (of_nat outs) 1 = min (of_nat outs * 2) 100
   \<and> roundedTo1Decimal (calculateHitProbability (of_nat outs) 2) (twoCardPercent (of_nat outs))
   \<and> calculateHitProbability 8 1 = 16
   \<and> \<bar>calculateHitProbability 9 2 - 35\<bar> \<le> 2 / 10"
proof -
  have a: "calculateHitProbability (of_nat outs) 1 = min (of_nat outs * 2) 100"
    by (simp add: calculateHitProbability_def)
  have e: "(1 - (47 - of_nat outs) / 47 * ((46 - of_nat outs) / 46)) * 100 * 10
           = twoCardPercent (of_nat outs) * 10"
    by (simp add: twoCardPercent_def)
  have b: "roundedTo1Decimal (calculateHitProbability (of_nat outs) 2)
             (twoCardPercent (of_nat outs))"
    unfolding roundedTo1Decimal_def calculateHitProbability_def Let_def
    using mathRound_close[of "twoCardPercent (of_nat outs)"] e
    by (auto simp: mult.assoc)
  have c: "calculateHitProbability 8 1 = 16"
    by (simp add: calculateHitProbability_def)
  have d: "calculateHitProbability 9 2 = 35"
    by code_simp
  show ?thesis using a b c d by simp
qed

subsection \<open>Starting a hand\<close>

lemma blind_seats_differ: "1 < n \<Longrightarrow> (d + 1) mod n \<noteq> (d + 2) mod (n::nat)"
  by (simp add: mod_Suc)

lemma postBlinds_length: "length (postBlinds b ps) = length ps"
  by (simp add: postBlinds_def)

lemma postBlinds_nth:
  "i < length ps \<Longrightarrow>
   postBlinds b ps ! i =
     (if i = smallBlindSeat b then postBlind SMALL_BLIND (ps ! i)
      else if i = bigBlindSeat b then postBlind BIG_BLIND (ps ! i)
      else ps ! i)"
  by (simp add: postBlinds_def nth_enumerate_eq)

lemma stack_resetPlayer: "stack (resetPlayer p) = stack p"
  by (simp add: resetPlayer_def)

lemma stack_nameOpponent: "stack (nameOpponent ai p) = stack p"
  by (simp add: nameOpponent_def split: option.splits)

lemma postBlind_fields:
  "Player.currentBet (postBlind b p) = min b (stack p)"
  "stack (postBlind b p) = stack p - min b (stack p)"
  "isAllIn (postBlind b p) = (stack (postBlind b p) = 0)"
  by (auto simp: postBlind_def Let_def)

text \<open>
  Claim C5.  On a table of more than two players (and a deck that holds the two hole
  cards), \<^verbatim>\<open>startNewHand\<close> moves the dealer index one seat on, modulo the number of
  players.  With the new dealer index \<open>d\<close>, the small blind is seat \<open>(d + 1) mod N\<close> and
  the big blind seat \<open>(d + 2) mod N\<close>; each posts its blind capped at its stack and is
  marked all-in exactly when the post leaves it no chips; the table's current bet is the
  big blind, the minimum raise twice the big blind, and the first to act is seat
  \<open>(bigBlindIndex + 1) mod N\<close>.  The scenario of the claim (four players with 100 chips,
  blinds 0.5 and 1, dealer of the hand at seat 0) follows the theorem.
\<close>

theorem startNewHand_blinds:
  assumes n: "2 < length (players prev)" and d: "2 \<le> length deck"
  shows "\<exists>s. startNewHand deck ai prev = Inr s
     \<and> length (players s) = length (players prev)
     \<and> dealerButtonIndex s = (dealerButtonIndex prev + 1) mod length (players prev)
     \<and> smallBlindIndex s = (dealerButtonIndex s + 1) mod length (players prev)
     \<and> bigBlindIndex s = (dealerButtonIndex s + 2) mod length (players prev)
     \<and> Player.currentBet (players s ! smallBlindIndex s)
         = min SMALL_BLIND (stack (players prev ! smallBlindIndex s))
     \<and> stack (players s ! smallBlindIndex s)
         = stack (players prev ! smallBlindIndex s)
           - min SMALL_BLIND (stack (players prev ! smallBlindIndex s))
     \<and> isAllIn (players s ! smallBlindIndex s) = (stack (players s ! smallBlindIndex s) = 0)
     \<and> Player.currentBet (players s ! bigBlindIndex s)
         = min BIG_BLIND (stack (players prev ! bigBlindIndex s))
     \<and> stack (players s ! bigBlindIndex s)
         = stack (players prev ! bigBlindIndex s)
           - min BIG_BLIND (stack (players prev ! bigBlindIndex s))
     \<and> isAllIn (players s ! bigBlindIndex s) = (stack (players s ! bigBlindIndex s) = 0)
     \<and> GameState.currentBet s = BIG_BLIND
     \<and> minRaise s = 2 * BIG_BLIND
     \<and> currentPlayerIndex s = (bigBlindIndex s + 1) mod length (players prev)"
proof -
  define n where "n = length (players prev)"
  define dl where "dl = (dealerButtonIndex prev + 1) mod n"
  define sb where "sb = (dl + 1) mod n"
  define bb where "bb = (dl + 2) mod n"
  define b where "b = getBlindPositions n dl"
  define rp where "rp = (if phase prev = Waiting then map (nameOpponent ai) (map resetPlayer (players prev))
                else map resetPlayer (players prev))"
  define pw where "pw = map (\<lambda>p. p\<lparr>holeCards := take 2 deck\<rparr>) rp"
  have pos: "0 < n" and n2: "n \<noteq> 2" using n unfolding n_def by linarith+
  have ne: "players prev \<noteq> []" using pos unfolding n_def by fastforce
  have sbl: "sb < n" and bbl: "bb < n" unfolding sb_def bb_def using pos by (rule mod_less_divisor)+
  have diff: "sb \<noteq> bb" unfolding sb_def bb_def using n unfolding n_def by (intro blind_seats_differ) linarith
  have bs: "smallBlindSeat b = sb" "bigBlindSeat b = bb"
    using n2 by (simp_all add: b_def getBlindPositions_def sb_def bb_def)
  have lpw: "length pw = n" by (simp add: pw_def rp_def n_def)
  have st: "\<And>i. i < n \<Longrightarrow> stack (pw ! i) = stack (players prev ! i)"
    by (simp add: pw_def rp_def n_def stack_resetPlayer stack_nameOpponent)
  have dd: "deal deck 2 = Inr (take 2 deck)"
    using d by (simp add: deal_def dealCards_def)
  have res: "startNewHand deck ai prev =
      Inr (prev\<lparr>phase := Betting, GameState.bettingRound := Preflop, pot := 0,
                 communityCards := [], players := postBlinds b pw,
                 currentPlayerIndex := (bb + 1) mod n,
                 dealerButtonIndex := dl, smallBlindIndex := sb, bigBlindIndex := bb,
                 GameState.currentBet := BIG_BLIND, minRaise := BIG_BLIND * 2,
                 actionHistory := []\<rparr>)"
    using ne dd bs
    by (simp add: startNewHand_def Let_def getFirstPreFlopPlayer_def postBlinds_length
        b_def[symmetric] pw_def rp_def n_def[symmetric] dl_def[symmetric] del: One_nat_def)
  have psb: "postBlinds b pw ! sb = postBlind SMALL_BLIND (pw ! sb)"
    using sbl lpw bs by (simp add: postBlinds_nth)
  have pbb: "postBlinds b pw ! bb = postBlind BIG_BLIND (pw ! bb)"
    using bbl lpw bs diff by (simp add: postBlinds_nth)
  show ?thesis
    unfolding res n_def[symmetric]
    using psb pbb st[OF sbl] st[OF bbl] lpw
    by (simp add: postBlind_fields postBlinds_length sb_def bb_def dl_def)
qed

text \<open>
  The scenario: the hand dealt with seat 0 as dealer, which is the hand started when the
  button was at seat 3.  Seat 1 has 0.5 in front, seat 2 has 1, the current bet is 1, the
  minimum raise 2 and seat 3 acts first.
\<close>

theorem startNewHand_scenario:
  "2 < length (players tableButtonAt3) \<and> 2 \<le> length createDeck
   \<and> (case startNewHand createDeck noStyles tableButtonAt3 of
         Inl e \<Rightarrow> False
       | Inr s \<Rightarrow>
           dealerButtonIndex s = 0
           \<and> Player.currentBet (players s ! 1) = 1 / 2
           \<and> Player.currentBet (players s ! 2) = 1
           \<and> GameState.currentBet s = 1
           \<and> minRaise s = 2
           \<and> currentPlayerIndex s = 3)"
proof -
  have h1: "2 < length (players tableButtonAt3)"
    by (simp add: tableButtonAt3_def initializeGame_def Let_def)
  have h2: "2 \<le> length createDeck"
    by (simp add: createDeck_def SUITS_def RANKS_def)
  have l: "length (players tableButtonAt3) = 4" "dealerButtonIndex tableButtonAt3 = 3"
     "stack (players tableButtonAt3 ! 1) = 100" "stack (players tableButtonAt3 ! 2) = 100"
    by (simp_all add: tableButtonAt3_def initializeGame_def Let_def freshPlayer_def)
  from startNewHand_blinds[OF h1 h2, of noStyles] obtain s where
    s: "startNewHand createDeck noStyles tableButtonAt3 = Inr s"
    and f: "dealerButtonIndex s = (dealerButtonIndex tableButtonAt3 + 1) mod length (players tableButtonAt3)"
      "smallBlindIndex s = (dealerButtonIndex s + 1) mod length (players tableButtonAt3)"
      "bigBlindIndex s = (dealerButtonIndex s + 2) mod length (players tableButtonAt3)"
      "Player.currentBet (players s ! smallBlindIndex s)
         = min SMALL_BLIND (stack (players tableButtonAt3 ! smallBlindIndex s))"
      "Player.currentBet (players s ! bigBlindIndex s)
         = min BIG_BLIND (stack (players tableButtonAt3 ! bigBlindIndex s))"
      "GameState.currentBet s = BIG_BLIND" "minRaise s = 2 * BIG_BLIND"
      "currentPlayerIndex s = (bigBlindIndex s + 1) mod length (players tableButtonAt3)"
    by blast
  have "dealerButtonIndex s = 0" "smallBlindIndex s = 1" "bigBlindIndex s = 2"
    using f(1-3) l by simp_all
  then show ?thesis using h1 h2 s f l
    by (simp add: SMALL_BLIND_def BIG_BLIND_def numeral_2_eq_2)
qed

text \<open>
  From the table that \<^verbatim>\<open>initializeGame\<close> builds, with the button at seat 0, the first
  hand has its dealer at seat 1 and seat 0 acts first.
\<close>

lemma first_hand_from_initial_table:
  "dealerButtonIndex (initializeGame 100 100 100 100) = 0
   \<and> dealerButtonIndex (stateOf (startNewHand createDeck noStyles (initializeGame 100 100 100 100))) = 1
   \<and> currentPlayerIndex (stateOf (startNewHand createDeck noStyles (initializeGame 100 100 100 100))) = 0"
  by code_simp

subsection \<open>Chip accounting\<close>

text \<open>
  Claim C1 asks that in every state reached from \<^verbatim>\<open>startNewHand\<close> by
  \<^verbatim>\<open>handlePlayerAction\<close> the pot plus the players' street bets equal the chips that left
  the stacks, and that a completed betting round adds exactly the collected street bets to
  the pot.  \<^verbatim>\<open>handlePlayerAction\<close> adds \<^verbatim>\<open>potIncrease\<close> to the pot when the action is
  applied, while the same chips stay in the player's \<^verbatim>\<open>currentBet\<close> and are added again
  by \<^verbatim>\<open>collectBets\<close> when the round completes.  In the hand started from
  \<open>tableButtonAt3\<close>: after the first call the pot plus the street bets is 3.5 with 2.5
  chips wagered; the third call completes the round with 2 in the pot and 4 in street bets
  (the 3.5 in front of the players plus the 0.5 of the call), and the pot becomes 6.5 with
  4 chips wagered.
\<close>

theorem chips_counted_twice:
  "startNewHand createDeck noStyles tableButtonAt3 = Inr startedHand
   \<and> handlePlayerAction 0 createDeck callAction startedHand = Inr afterOneCall
   \<and> pot afterOneCall + streetBets afterOneCall = 7 / 2
   \<and> chipsWagered tableButtonAt3 afterOneCall = 5 / 2
   \<and> handlePlayerAction 0 createDeck callAction afterOneCall = Inr afterTwoCalls
   \<and> pot afterTwoCalls = 2
   \<and> handlePlayerAction 0 createDeck callAction afterTwoCalls = Inr afterThreeCalls
   \<and> GameState.bettingRound afterThreeCalls = Flop
   \<and> streetBets afterTwoCalls + 1 / 2 = 4
   \<and> pot afterThreeCalls = 13 / 2
   \<and> streetBets afterThreeCalls = 0
   \<and> chipsWagered tableButtonAt3 afterThreeCalls = 4"
  by code_simp

subsection \<open>Raises\<close>

text \<open>
  The claim C2 as stated caps the new street total of a raise at the player's stack plus
  the chips already bet on the street.  \<^verbatim>\<open>processPlayerAction\<close> caps it at the stack:
  a seat with 10 chips behind and 5 already bet that raises to 15 ends with a street total
  of 10, where the claim gives 15.
\<close>

theorem raise_cap_counterexample:
  "Player.currentBet (updatedPlayer (processPlayerAction raiseTo15 seatWith10Behind startedHand)) = 10
   \<and> min 15 (stack seatWith10Behind + Player.currentBet seatWith10Behind) = 15"
  by code_simp

text \<open>
  Claim C2, amended.  A raise sets the player's street total to
  \<open>min amount stack\<close> (a missing amount counts as 0), moves the difference between that
  total and the previous street bet out of the stack, makes the total the new current bet,
  marks the player all-in when the stack reaches 0 (and leaves the flag as it was
  otherwise), and the minimum raise computed from it is the new current bet plus the larger
  of the raise delta and the big blind.  When the acting seat exists and the raise does not
  complete the betting round, the state returned by \<^verbatim>\<open>handlePlayerAction\<close> holds the
  updated player, that current bet and that minimum raise.
\<close>

theorem raise_applied:
  "type act = Raise \<Longrightarrow>
   (let total = min (case BetAction.amount act of None \<Rightarrow> 0 | Some a \<Rightarrow> a) (stack p);
        res = processPlayerAction act p g;
        p' = updatedPlayer res
    in Player.currentBet p' = total
       \<and> stack p' = stack p - (total - Player.currentBet p)
       \<and> newCurrentBet res = total
       \<and> isAllIn p' = (isAllIn p \<or> stack p' = 0)
       \<and> calculateMinRaise (newCurrentBet res) (newCurrentBet res - GameState.currentBet g) BIG_BLIND
           = total + max (total - GameState.currentBet g) BIG_BLIND
       \<and> (currentPlayerIndex g < length (players g) \<and> p = players g ! currentPlayerIndex g
            \<and> \<not> isBettingRoundComplete ((players g)[currentPlayerIndex g := p']) total
          \<longrightarrow> (\<exists>s. handlePlayerAction now deck act g = Inr s
                 \<and> players s = (players g)[currentPlayerIndex g := p']
                 \<and> GameState.currentBet s = total
                 \<and> minRaise s = total + max (total - GameState.currentBet g) BIG_BLIND)))"
  by (auto simp: processPlayerAction_def handlePlayerAction_def Let_def markAllIn_def
      calculateMinRaise_def)

theorem raise_applied_witness:
  "type raiseTo3 = Raise
   \<and> currentPlayerIndex startedHand < length (players startedHand)
   \<and> \<not> isBettingRoundComplete
         ((players startedHand)[currentPlayerIndex startedHand :=
             updatedPlayer (processPlayerAction raiseTo3
               (players startedHand ! currentPlayerIndex startedHand) startedHand)]) 3
   \<and> GameState.currentBet (stateOf (handlePlayerAction 0 createDeck raiseTo3 startedHand)) = 3
   \<and> minRaise (stateOf (handlePlayerAction 0 createDeck raiseTo3 startedHand)) = 5
   \<and> Player.currentBet (players (stateOf (handlePlayerAction 0 createDeck raiseTo3 startedHand)) ! 3) = 3
   \<and> stack (players (stateOf (handlePlayerAction 0 createDeck raiseTo3 startedHand)) ! 3) = 97"
proof -
  have t: "type raiseTo3 = Raise" by (simp add: raiseTo3_def)
  have i: "currentPlayerIndex startedHand < length (players startedHand)" by code_simp
  have idx: "currentPlayerIndex startedHand = 3" by code_simp
  have tot: "min (case BetAction.amount raiseTo3 of None \<Rightarrow> 0 | Some a \<Rightarrow> a)
               (stack (players startedHand ! currentPlayerIndex startedHand)) = 3"
    by code_simp
  have nc: "\<not> isBettingRoundComplete
         ((players startedHand)[currentPlayerIndex startedHand :=
             updatedPlayer (processPlayerAction raiseTo3
               (players startedHand ! currentPlayerIndex startedHand) startedHand)]) 3"
    by code_simp
  have cb: "GameState.currentBet startedHand = 1" "BIG_BLIND = 1"
    "Player.currentBet (players startedHand ! 3) = 0" "stack (players startedHand ! 3) = 100"
    "length (players startedHand) = 4"
    by code_simp+
  from raise_applied[OF t, of "players startedHand ! currentPlayerIndex startedHand" startedHand 0 createDeck]
  show ?thesis
    using t i nc tot idx cb
    by (auto simp: Let_def stateOf_def)
qed

subsection \<open>Raises proposed by the AI\<close>

text \<open>
  \<^verbatim>\<open>determineRaiseSize\<close> caps the raise it proposes at the player's stack.
\<close>

lemma determineRaiseSize_capped:
  "type (determineRaiseSize cfg p potSize hs) = Raise
   \<and> (\<exists>a. BetAction.amount (determineRaiseSize cfg p potSize hs) = Some a \<and> a \<le> stack p)"
  by (simp add: determineRaiseSize_def Let_def)

text \<open>
  Claim C3 asks that \<^verbatim>\<open>decide\<close> never returns a raise above the player's stack, nor one
  below the minimum raise unless it is the whole stack; these are the two rules of
  \<^verbatim>\<open>validateBetAmount\<close>.  \<^verbatim>\<open>decide\<close> sizes a raise from the pot and never reads the
  minimum raise, and its half-pot bluff bet misses the cap that
  \<^verbatim>\<open>determineRaiseSize\<close> applies.  Three inputs: in the hand dealt from \<open>acesOnTop\<close>
  the first seat to act holds a pair of aces, faces the big blind with an empty pot, and
  raises to 0, below the minimum raise of 2 with a stack of 100; on the flop, facing a bet
  of 10 with a minimum raise of 20, a seat with 100 chips raises to 14, which
  \<^verbatim>\<open>validateBetAmount\<close> refuses as below the minimum; with 100 in the pot a seat with
  30 chips bluffs with a raise to 50, which \<^verbatim>\<open>validateBetAmount\<close> refuses as above the
  stack.
\<close>

theorem decide_raise_breaks_bounds:
  "startNewHand acesOnTop noStyles tableButtonAt3 = Inr handWithAces
   \<and> GameState.bettingRound handWithAces = Preflop
   \<and> currentPlayerIndex handWithAces = 3
   \<and> decide maniac drawsAllZero (players handWithAces ! 3) handWithAces
       = Inr \<lparr>type = Raise, amount = Some 0\<rparr>
   \<and> (0::rat) < minRaise handWithAces
   \<and> (0::rat) \<noteq> stack (players handWithAces ! 3)
   \<and> players flopFacingBet ! currentPlayerIndex flopFacingBet = deepStack
   \<and> decide maniac drawsAllTenth deepStack flopFacingBet = Inr \<lparr>type = Raise, amount = Some 14\<rparr>
   \<and> (14::rat) < minRaise flopFacingBet
   \<and> (14::rat) \<noteq> stack deepStack
   \<and> validateBetAmount 14 deepStack (GameState.currentBet flopFacingBet) (minRaise flopFacingBet)
       = Some (BelowMinimumRaise 20)
   \<and> players bluffSpot ! currentPlayerIndex bluffSpot = shortStackBluffer
   \<and> decide maniac drawsAllZero shortStackBluffer bluffSpot = Inr \<lparr>type = Raise, amount = Some 50\<rparr>
   \<and> stack shortStackBluffer < 50
   \<and> validateBetAmount 50 shortStackBluffer (GameState.currentBet bluffSpot) (minRaise bluffSpot)
       = Some BetExceedsStack"
  by code_simp

subsection \<open>Street transitions\<close>

text \<open>
  What \<^verbatim>\<open>handlePlayerAction\<close> does when the action leaves more than one player in
  the hand and every player who has neither folded nor gone all-in level with the current
  bet (and the deck holds the cards to deal): the street bets and the current bet are 0;
  after the river the phase is the showdown; otherwise the next street starts with three
  new community cards on the flop and one more on the turn and on the river, the minimum
  raise is the big blind, and the seat to act is the one \<^verbatim>\<open>getFirstPostFlopPlayer\<close>
  returns.
\<close>

lemma round_complete_when_level:
  "\<forall>p \<in> set ps. \<not> isFolded p \<and> \<not> isAllIn p \<longrightarrow> Player.currentBet p = b
   \<Longrightarrow> isBettingRoundComplete ps b"
  by (auto simp: isBettingRoundComplete_def Let_def list_all_iff)

lemma collectBets_players:
  "fst (collectBets ps) = map (\<lambda>p. p\<lparr>Player.currentBet := 0\<rparr>) ps"
  by (simp add: collectBets_def)

lemma street_advances:
  assumes i: "currentPlayerIndex prev < length (players prev)"
    and live: "1 < length (filter (\<lambda>p. \<not> isFolded p)
                 ((players prev)[currentPlayerIndex prev :=
                    updatedPlayer (processPlayerAction act
                      (players prev ! currentPlayerIndex prev) prev)]))"
    and level: "\<forall>p \<in> set ((players prev)[currentPlayerIndex prev :=
                    updatedPlayer (processPlayerAction act
                      (players prev ! currentPlayerIndex prev) prev)]).
                 \<not> isFolded p \<and> \<not> isAllIn p \<longrightarrow>
                 Player.currentBet p
                 = newCurrentBet (processPlayerAction act
                      (players prev ! currentPlayerIndex prev) prev)"
    and deck: "3 \<le> length deck"
  shows "\<exists>s. handlePlayerAction now deck act prev = Inr s
     \<and> GameState.currentBet s = 0
     \<and> (\<forall>p \<in> set (players s). Player.currentBet p = 0)
     \<and> (case getNextBettingRound (GameState.bettingRound prev) of
           None \<Rightarrow> phase s = Showdown
         | Some r \<Rightarrow>
             GameState.bettingRound s = r
             \<and> communityCards s
                 = (if r = Flop then take 3 deck else communityCards prev @ take 1 deck)
             \<and> minRaise s = BIG_BLIND
             \<and> currentPlayerIndex s
                 = getFirstPostFlopPlayer (length (players prev)) (dealerButtonIndex prev))"
proof -
  let ?res = "processPlayerAction act (players prev ! currentPlayerIndex prev) prev"
  let ?ups = "(players prev)[currentPlayerIndex prev := updatedPlayer ?res]"
  have over: "\<not> isHandOver ?ups" using live by (simp add: isHandOver_def getActivePlayers_def)
  have cmpl: "isBettingRoundComplete ?ups (newCurrentBet ?res)"
    using level by (rule round_complete_when_level)
  have d3: "deal deck 3 = Inr (take 3 deck)"
    using deck by (simp add: deal_def dealCards_def)
  have "1 \<le> length deck" using deck by linarith
  then have d1: "deal deck 1 = Inr (take 1 deck)"
    by (simp add: deal_def dealCards_def not_less Suc_le_eq)
  show ?thesis
  proof (cases "getNextBettingRound (GameState.bettingRound prev)")
    case None
    with i over cmpl show ?thesis
      by (simp add: handlePlayerAction_def Let_def collectBets_def)
  next
    case (Some r)
    then have r: "r = Flop \<or> r = Turn \<or> r = River"
      by (cases "GameState.bettingRound prev") auto
    with Some i over cmpl d3 d1 show ?thesis
      by (auto simp: handlePlayerAction_def Let_def collectBets_def dealCommunity_def)
  qed
qed

text \<open>
  Claim C4 asks that, when the acting player's action leaves every player who has neither
  folded nor gone all-in level with the current bet, the street advances (three community
  cards on the flop, one on the turn and on the river), the current bet is 0, the minimum
  raise is the big blind, the street bets are 0, and the first seat after the dealer that
  has neither folded nor gone all-in acts.  \<^verbatim>\<open>getFirstPostFlopPlayer\<close> returns the seat
  after the dealer whatever its state.  In the hand started from \<open>tableButtonAt3\<close>,
  after two calls the small blind (seat 1) folds: the round is complete, the flop has
  three cards, and the seat to act is seat 1, which has folded, while seat 2 is still in
  the hand.
\<close>

theorem folded_seat_opens_flop:
  "handlePlayerAction 0 createDeck foldAction afterTwoCalls = Inr afterSmallBlindFolds
   \<and> GameState.bettingRound afterSmallBlindFolds = Flop
   \<and> length (communityCards afterSmallBlindFolds) = 3
   \<and> dealerButtonIndex afterSmallBlindFolds = 0
   \<and> currentPlayerIndex afterSmallBlindFolds = 1
   \<and> isFolded (players afterSmallBlindFolds ! 1)
   \<and> \<not> isFolded (players afterSmallBlindFolds ! 2)
   \<and> \<not> isAllIn (players afterSmallBlindFolds ! 2)"
  by code_simp

section \<open>Properties of the hand evaluator\<close>

subsection \<open>Five cards of the input\<close>

lemma set_sortCardsByRank [simp]: "set (sortCardsByRank cs) = set cs"
  by (simp add: sortCardsByRank_def)

lemma length_sortCardsByRank [simp]: "length (sortCardsByRank cs) = length cs"
  by (simp add: sortCardsByRank_def)

lemma set_dedup [simp]: "set (dedup xs) = set xs"
  by (induction xs) auto

lemma distinct_dedup [simp]: "distinct (dedup xs)"
  by (induction xs) auto

lemma find_rank_Some:
  "r \<in> rank ` set xs \<Longrightarrow> \<exists>c \<in> set xs. find (\<lambda>c. rank c = r) xs = Some c \<and> rank c = r"
  by (induction xs) auto

lemma find_rank_in:
  "set rs \<subseteq> rank ` set xs \<Longrightarrow> set (map (\<lambda>rk. find (\<lambda>c. rank c = rk) xs) rs) \<subseteq> Some ` set xs"
  using find_rank_Some by fastforce

lemma rankOfFirst_five:
  "length xs = 5 \<Longrightarrow> set xs \<subseteq> Some ` A \<Longrightarrow> \<exists>r. rankOfFirst xs = Inr r"
  by (cases xs) (auto simp: rankOfFirst_def)

lemma first_nonempty: "xs \<noteq> [] \<Longrightarrow> \<exists>x \<in> set xs. first xs = Some x"
  by (cases xs) (auto simp: first_def)

lemma regularStraights_five:
  "set rs \<subseteq> rank ` set sc \<Longrightarrow>
   \<exists>res. regularStraights sc rs = Inr res \<and> (\<forall>h. res = Some h \<longrightarrow> ranking h = Straight \<and> fiveOf sc h)"
proof (induction rs)
  case Nil
  then show ?case by simp
next
  case (Cons r rs)
  have sub: "set (take 5 (r # rs)) \<subseteq> rank ` set sc"
    using Cons.prems set_take_subset[of 5 "r # rs"] by blast
  show ?case
  proof (cases "length (r # rs) < 5")
    case True
    then show ?thesis by simp
  next
    case False
    then have l5: "length (take 5 (r # rs)) = 5" by simp
    let ?cards = "map (\<lambda>rk. find (\<lambda>c. rank c = rk) sc) (take 5 (r # rs))"
    have f: "set ?cards \<subseteq> Some ` set sc" using find_rank_in[OF sub] .
    have l: "length ?cards = 5" using l5 by simp
    obtain hr where hr: "rankOfFirst ?cards = Inr hr" using rankOfFirst_five[OF l f] by blast
    show ?thesis
    proof (cases "isConsecutive (map getRankValue (take 5 (r # rs)))")
      case True
      with False hr l f show ?thesis
        by (simp add: Let_def fiveOf_def del: take_Suc_Cons)
    next
      case c: False
      have "set rs \<subseteq> rank ` set sc" using Cons.prems by auto
      from Cons.IH[OF this] False c show ?thesis by (simp add: Let_def del: take_Suc_Cons)
    qed
  qed
qed

lemma checkStraight_five:
  "\<exists>res. checkStraight cs = Inr res \<and> (\<forall>h. res = Some h \<longrightarrow> ranking h = Straight \<and> fiveOf cs h)"
proof -
  let ?sc = "sortCardsByRank cs"
  let ?ur = "dedup (map rank ?sc)"
  have u: "set ?ur \<subseteq> rank ` set ?sc" by simp
  show ?thesis
  proof (cases "RA \<in> set ?ur \<and> R2 \<in> set ?ur \<and> R3 \<in> set ?ur \<and> R4 \<in> set ?ur \<and> R5 \<in> set ?ur")
    case True
    then have "set [R5, R4, R3, R2, RA] \<subseteq> rank ` set ?sc" by auto
    from find_rank_in[OF this] True show ?thesis
      unfolding checkStraight_def Let_def by (simp add: fiveOf_def)
  next
    case False
    from regularStraights_five[OF u] False show ?thesis
      unfolding checkStraight_def Let_def fiveOf_def by auto
  qed
qed

lemma fiveOf_mono: "fiveOf xs h \<Longrightarrow> set xs \<subseteq> set ys \<Longrightarrow> fiveOf ys h"
  unfolding fiveOf_def by blast

lemma fiveOf_cards: "fiveOf cs h \<Longrightarrow> cards h' = cards h \<Longrightarrow> fiveOf cs h'"
  by (simp add: fiveOf_def)

lemma rankOfFirst_fiveOf: "fiveOf cs h \<Longrightarrow> \<exists>r. rankOfFirst (cards h) = Inr r"
  unfolding fiveOf_def using rankOfFirst_five by blast

lemma straightFlushLoop_five:
  "\<exists>res. straightFlushLoop cs ss = Inr res
         \<and> (\<forall>h. res = Some h \<longrightarrow> ranking h = StraightFlush \<and> fiveOf cs h)"
proof (induction ss)
  case Nil
  then show ?case by simp
next
  case (Cons s ss)
  let ?su = "filter (\<lambda>c. suit c = s) cs"
  obtain res where res: "checkStraight ?su = Inr res"
    and h: "\<forall>h. res = Some h \<longrightarrow> ranking h = Straight \<and> fiveOf ?su h"
    using checkStraight_five[of ?su] by blast
  show ?case
  proof (cases res)
    case None
    with res Cons.IH show ?thesis by (simp add: Let_def)
  next
    case (Some st)
    with h have f: "fiveOf ?su st" by simp
    then have f': "fiveOf cs st" by (rule fiveOf_mono) auto
    obtain r where r: "rankOfFirst (cards st) = Inr r" using rankOfFirst_fiveOf[OF f] by blast
    show ?thesis
      using res Some r f' Cons.IH
      by (auto simp: Let_def fiveOf_def)
  qed
qed

lemma checkStraightFlush_five:
  "\<exists>res. checkStraightFlush cs = Inr res
         \<and> (\<forall>h. res = Some h \<longrightarrow> ranking h = StraightFlush \<and> fiveOf cs h)"
  unfolding checkStraightFlush_def by (rule straightFlushLoop_five)

lemma checkRoyalFlush_five:
  "\<exists>res. checkRoyalFlush cs = Inr res
         \<and> (\<forall>h. res = Some h \<longrightarrow> ranking h = RoyalFlush \<and> fiveOf cs h)"
proof -
  obtain res where res: "checkStraightFlush cs = Inr res"
    and h: "\<forall>h. res = Some h \<longrightarrow> ranking h = StraightFlush \<and> fiveOf cs h"
    using checkStraightFlush_five[of cs] by blast
  show ?thesis
  proof (cases res)
    case None
    with res show ?thesis by (simp add: checkRoyalFlush_def)
  next
    case (Some sf)
    with h have f: "fiveOf cs sf" by simp
    obtain r where r: "rankOfFirst (cards sf) = Inr r" using rankOfFirst_fiveOf[OF f] by blast
    show ?thesis using res Some r f by (auto simp: checkRoyalFlush_def fiveOf_def)
  qed
qed

lemma flushLoop_five:
  "\<exists>res. flushLoop cs ss = Inr res \<and> (\<forall>h. res = Some h \<longrightarrow> ranking h = Flush \<and> fiveOf cs h)"
proof (induction ss)
  case Nil
  then show ?case by simp
next
  case (Cons s ss)
  let ?su = "filter (\<lambda>c. suit c = s) cs"
  show ?case
  proof (cases "length ?su \<ge> 5")
    case False
    with Cons.IH show ?thesis by (simp add: Let_def)
  next
    case True
    let ?fc = "map Some (take 5 (sortCardsByRank ?su))"
    have l: "length ?fc = 5" using True by simp
    have "set (take 5 (sortCardsByRank ?su)) \<subseteq> set cs"
      using set_take_subset[of 5 "sortCardsByRank ?su"] by auto
    then have s: "set ?fc \<subseteq> Some ` set cs" by auto
    obtain r where r: "rankOfFirst ?fc = Inr r" using rankOfFirst_five[OF l s] by blast
    show ?thesis using True r l s by (simp add: Let_def fiveOf_def)
  qed
qed

lemma checkFlush_five:
  "\<exists>res. checkFlush cs = Inr res \<and> (\<forall>h. res = Some h \<longrightarrow> ranking h = Flush \<and> fiveOf cs h)"
  unfolding checkFlush_def by (rule flushLoop_five)

lemma checkHighCard_five:
  assumes "5 \<le> length cs"
  shows "\<exists>h. checkHighCard cs = Inr h \<and> ranking h = HighCard \<and> fiveOf cs h"
proof -
  let ?fc = "map Some (take 5 (sortCardsByRank cs))"
  have l: "length ?fc = 5" using assms by simp
  have "set (take 5 (sortCardsByRank cs)) \<subseteq> set cs"
    using set_take_subset[of 5 "sortCardsByRank cs"] by auto
  then have s: "set ?fc \<subseteq> Some ` set cs" by auto
  obtain r where r: "rankOfFirst ?fc = Inr r" using rankOfFirst_five[OF l s] by blast
  show ?thesis using r l s by (simp add: checkHighCard_def Let_def fiveOf_def)
qed

subsection \<open>Rank counts\<close>

lemma set_rankKeys: "set (rankKeys cs) = rank ` set cs"
proof
  show "set (rankKeys cs) \<subseteq> rank ` set cs" by (auto simp: rankKeys_def)
  show "rank ` set cs \<subseteq> set (rankKeys cs)"
  proof
    fix r assume "r \<in> rank ` set cs"
    then show "r \<in> set (rankKeys cs)"
      by (cases r) (auto simp: rankKeys_def isIndexKey_def)
  qed
qed

lemma distinct_rankKeys: "distinct (rankKeys cs)"
  by (auto simp: rankKeys_def isIndexKey_def)

lemma set_getRankCounts: "set (getRankCounts cs) = (\<lambda>r. (r, rankCount cs r)) ` rank ` set cs"
  by (simp add: getRankCounts_def set_rankKeys)

lemma in_getRankCounts: "(r, n) \<in> set (getRankCounts cs) \<longleftrightarrow> r \<in> rank ` set cs \<and> n = rankCount cs r"
  by (auto simp: set_getRankCounts)

lemma cnt_pos_iff: "0 < rankCount cs r \<longleftrightarrow> r \<in> rank ` set cs"
  by (induction cs) auto

lemma map_fst_getRankCounts: "map fst (getRankCounts cs) = rankKeys cs"
  by (simp add: getRankCounts_def comp_def)

lemma cnt_split: "rankCount cs r + length (filter (\<lambda>c. rank c \<noteq> r) cs) = length cs"
  using sum_length_filter_compl[of "\<lambda>c. rank c = r" cs] by simp

lemma rank_counts_total:
  "distinct rs \<Longrightarrow>
   sum_list (map (rankCount cs) rs) + length (filter (\<lambda>c. rank c \<notin> set rs) cs) = length cs"
proof (induction rs arbitrary: cs)
  case Nil
  then show ?case by simp
next
  case (Cons r rs)
  let ?rest = "filter (\<lambda>c. rank c \<noteq> r) cs"
  have same: "map (rankCount cs) rs = map (rankCount ?rest) rs"
  proof (rule map_cong[OF refl])
    fix x assume "x \<in> set rs"
    with Cons.prems have "x \<noteq> r" by auto
    then have "filter (\<lambda>c. rank c = x) ?rest = filter (\<lambda>c. rank c = x) cs"
      by (induction cs) auto
    then show "rankCount cs x = rankCount ?rest x" by simp
  qed
  have f: "filter (\<lambda>c. rank c \<notin> set (r # rs)) cs = filter (\<lambda>c. rank c \<notin> set rs) ?rest"
    by (simp add: conj_commute)
  from Cons.prems have "distinct rs" by simp
  from Cons.IH[OF this, of ?rest]
  have ih: "sum_list (map (rankCount ?rest) rs) + length (filter (\<lambda>c. rank c \<notin> set rs) ?rest)
            = length ?rest" .
  have a: "sum_list (map (rankCount cs) (r # rs)) = rankCount cs r + sum_list (map (rankCount ?rest) rs)"
    by (simp only: same list.map sum_list.Cons)
  have b: "rankCount cs r + length ?rest = length cs" by (rule cnt_split)
  show ?case unfolding a f using ih b by linarith
qed

lemma sortCardsByRank_Nil_iff [simp]: "sortCardsByRank xs = [] \<longleftrightarrow> xs = []"
  by (metis length_sortCardsByRank length_0_conv)

lemma find_SomeD: "find P xs = Some x \<Longrightarrow> P x \<and> x \<in> set xs"
  by (induction xs) (auto split: if_splits)

lemma find_entry:
  "find P (getRankCounts cs) = Some (r, n) \<Longrightarrow> P (r, n) \<and> r \<in> rank ` set cs \<and> n = rankCount cs r"
  by (auto simp: in_getRankCounts[symmetric] dest: find_SomeD)

lemma kind_with_kickers:
  assumes "rankCount cs r = k" "k + j \<le> length cs"
  shows "length (filter (\<lambda>c. rank c = r) cs @ take j (sortCardsByRank (filter (\<lambda>c. rank c \<noteq> r) cs))) = k + j"
    and "set (filter (\<lambda>c. rank c = r) cs @ take j (sortCardsByRank (filter (\<lambda>c. rank c \<noteq> r) cs))) \<subseteq> set cs"
proof -
  have "length (filter (\<lambda>c. rank c \<noteq> r) cs) \<ge> j"
    using assms cnt_split[where cs=cs and r=r] by linarith
  then show "length (filter (\<lambda>c. rank c = r) cs @ take j (sortCardsByRank (filter (\<lambda>c. rank c \<noteq> r) cs))) = k + j"
    using assms(1) by simp
  have "set (take j (sortCardsByRank (filter (\<lambda>c. rank c \<noteq> r) cs))) \<subseteq> set cs"
    using set_take_subset[of j "sortCardsByRank (filter (\<lambda>c. rank c \<noteq> r) cs)"] by auto
  then show "set (filter (\<lambda>c. rank c = r) cs @ take j (sortCardsByRank (filter (\<lambda>c. rank c \<noteq> r) cs))) \<subseteq> set cs"
    by auto
qed

lemma fiveOfI: "length xs = 5 \<Longrightarrow> set xs \<subseteq> set cs \<Longrightarrow> cards h = map Some xs \<Longrightarrow> fiveOf cs h"
  by (auto simp: fiveOf_def)

lemma checkThreeOfAKind_five:
  assumes "5 \<le> length cs" "checkThreeOfAKind cs = Some h"
  shows "ranking h = ThreeOfAKind \<and> fiveOf cs h"
proof -
  from assms(2) obtain r n where f: "find (\<lambda>(r, n). n = 3) (getRankCounts cs) = Some (r, n)"
    by (auto simp: checkThreeOfAKind_def split: option.splits)
  from find_entry[OF f] have c: "rankCount cs r = 3" by simp
  have le: "3 + 2 \<le> length cs" using assms(1) by simp
  from f assms(2) have h: "ranking h = ThreeOfAKind"
    "cards h = map Some (filter (\<lambda>c. rank c = r) cs
                 @ take 2 (sortCardsByRank (filter (\<lambda>c. rank c \<noteq> r) cs)))"
    by (auto simp: checkThreeOfAKind_def Let_def)
  from kind_with_kickers[OF c le] have "fiveOf cs h" by (intro fiveOfI[OF _ _ h(2)]) simp_all
  with h show ?thesis by simp
qed

lemma checkPair_five:
  assumes "5 \<le> length cs" "checkPair cs = Some h"
  shows "ranking h = Pair \<and> fiveOf cs h"
proof -
  from assms(2) obtain r n where f: "find (\<lambda>(r, n). n = 2) (getRankCounts cs) = Some (r, n)"
    by (auto simp: checkPair_def split: option.splits)
  from find_entry[OF f] have c: "rankCount cs r = 2" by simp
  have le: "2 + 3 \<le> length cs" using assms(1) by simp
  from f assms(2) have h: "ranking h = Pair"
    "cards h = map Some (filter (\<lambda>c. rank c = r) cs
                 @ take 3 (sortCardsByRank (filter (\<lambda>c. rank c \<noteq> r) cs)))"
    by (auto simp: checkPair_def Let_def)
  from kind_with_kickers[OF c le] have "fiveOf cs h" by (intro fiveOfI[OF _ _ h(2)]) simp_all
  with h show ?thesis by simp
qed

lemma checkFourOfAKind_five:
  assumes "5 \<le> length cs" "checkFourOfAKind cs = Some h"
  shows "ranking h = FourOfAKind \<and> fiveOf cs h"
proof -
  from assms(2) obtain r n where f: "find (\<lambda>(r, n). n = 4) (getRankCounts cs) = Some (r, n)"
    by (auto simp: checkFourOfAKind_def split: option.splits)
  from find_entry[OF f] have c: "rankCount cs r = 4" by simp
  let ?o = "sortCardsByRank (filter (\<lambda>c. rank c \<noteq> r) cs)"
  have "1 \<le> length (filter (\<lambda>c. rank c \<noteq> r) cs)"
    using c assms(1) cnt_split[where cs=cs and r=r] by linarith
  then have "1 \<le> length ?o" by simp
  then have "?o \<noteq> []" by auto
  from first_nonempty[OF this] obtain x where x: "x \<in> set ?o" "first ?o = Some x" by blast
  then have "x \<in> set cs" by auto
  from f assms(2) x have h: "ranking h = FourOfAKind"
    "cards h = map Some (filter (\<lambda>c. rank c = r) cs @ [x])"
    by (auto simp: checkFourOfAKind_def Let_def)
  from c \<open>x \<in> set cs\<close> have "fiveOf cs h" by (intro fiveOfI[OF _ _ h(2)]) auto
  with h show ?thesis by simp
qed

subsection \<open>Full house\<close>

lemma fold_keepHigher_Some:
  "fold (keepHigher excl k) es (Some b) \<noteq> None"
  by (induction es arbitrary: b) (auto simp: keepHigher_def split: option.splits)

lemma fold_keepHigher_None_iff:
  "fold (keepHigher excl k) es None = None \<longleftrightarrow> (\<forall>e \<in> set es. \<not> qualifies excl k e)"
proof (induction es)
  case Nil
  then show ?case by simp
next
  case (Cons e es)
  show ?case
  proof (cases "qualifies excl k e")
    case True
    then have "keepHigher excl k e None = Some (fst e)"
      by (cases e) (simp add: keepHigher_def qualifies_def)
    with True fold_keepHigher_Some show ?thesis by simp
  next
    case False
    then have "keepHigher excl k e None = None"
      by (cases e) (auto simp: keepHigher_def qualifies_def)
    with False Cons.IH show ?thesis by simp
  qed
qed

text \<open>The result of the loop is a qualifying rank of greatest value, whatever the start.\<close>

lemma fold_keepHigher_max:
  assumes "fold (keepHigher excl k) es init = Some r"
  shows "(init = Some r \<or> (\<exists>n. (r, n) \<in> set es \<and> qualifies excl k (r, n)))
         \<and> (\<forall>e \<in> set es. qualifies excl k e \<longrightarrow> getRankValue (fst e) \<le> getRankValue r)
         \<and> (\<forall>b. init = Some b \<longrightarrow> getRankValue b \<le> getRankValue r)"
  using assms
proof (induction es arbitrary: init)
  case Nil
  then show ?case by simp
next
  case (Cons e es)
  obtain r' n' where e: "e = (r', n')" by (cases e)
  let ?i = "keepHigher excl k e init"
  from Cons.prems have f: "fold (keepHigher excl k) es ?i = Some r" by simp
  note ih = Cons.IH[OF f]
  show ?case
  proof (cases "qualifies excl k e")
    case False
    then have "?i = init" by (auto simp: e keepHigher_def qualifies_def)
    with ih False show ?thesis by auto
  next
    case True
    show ?thesis
    proof (cases init)
      case None
      then have "?i = Some r'" using True by (simp add: e keepHigher_def qualifies_def)
      with ih True None e show ?thesis by auto
    next
      case (Some b)
      show ?thesis
      proof (cases "getRankValue r' > getRankValue b")
        case gt: True
        then have "?i = Some r'" using True Some by (simp add: e keepHigher_def qualifies_def)
        with ih True Some e gt show ?thesis by auto
      next
        case le: False
        then have "?i = init" using True Some by (simp add: e keepHigher_def qualifies_def)
        with ih True Some e le show ?thesis by auto
      qed
    qed
  qed
qed

lemma getRankValue_inj: "getRankValue a = getRankValue b \<Longrightarrow> a = b"
  by (cases a; cases b) simp_all

lemma third_loop_idle:
  assumes "fold (keepHigher excl 2) es None = None"
  shows "find (\<lambda>(r, n). Some r \<noteq> excl \<and> n \<ge> 3) es = None"
proof (rule ccontr)
  assume "find (\<lambda>(r, n). Some r \<noteq> excl \<and> n \<ge> 3) es \<noteq> None"
  then obtain e where "find (\<lambda>(r, n). Some r \<noteq> excl \<and> n \<ge> 3) es = Some e" by auto
  then have "e \<in> set es" "Some (fst e) \<noteq> excl \<and> snd e \<ge> 3"
    by (auto dest!: find_SomeD split: prod.splits)
  then have "qualifies excl 2 e" by (simp add: qualifies_def)
  with \<open>e \<in> set es\<close> assms show False by (simp add: fold_keepHigher_None_iff)
qed

lemma checkFullHouse_alt:
  "checkFullHouse cs =
     (case (threeRankOf cs, pairRankOf cs) of
        (Some t, Some p) \<Rightarrow>
          Some \<lparr>ranking = FullHouse,
                cards = map Some (take 3 (filter (\<lambda>c. rank c = t) cs)
                                  @ take 2 (filter (\<lambda>c. rank c = p) cs)),
                description = ''Full House, '' @ rankStr t @ ''s over '' @ rankStr p @ ''s''\<rparr>
      | _ \<Rightarrow> None)"
proof (cases "threeRankOf cs")
  case None
  then show ?thesis
    by (simp add: checkFullHouse_def Let_def threeRankOf_def[symmetric] pairRankOf_def[symmetric])
next
  case t: (Some t)
  have pr: "pairRankOf cs = fold (keepHigher (Some t) 2) (getRankCounts cs) None"
    by (simp add: pairRankOf_def t)
  have three: "fold (keepHigher None 3) (getRankCounts cs) None = Some t"
    using t by (simp add: threeRankOf_def)
  show ?thesis
  proof (cases "pairRankOf cs")
    case None
    then have n: "fold (keepHigher (Some t) 2) (getRankCounts cs) None = None" using pr by simp
    then have "find (\<lambda>(r, n). Some r \<noteq> Some t \<and> n \<ge> 3) (getRankCounts cs) = None"
      by (rule third_loop_idle)
    then have "find (\<lambda>(r, n). r \<noteq> t \<and> 3 \<le> n) (getRankCounts cs) = None" by simp
    with None t n three show ?thesis
      by (simp add: checkFullHouse_def Let_def)
  next
    case (Some p)
    then have n: "fold (keepHigher (Some t) 2) (getRankCounts cs) None = Some p" using pr by simp
    with Some t three show ?thesis
      by (simp add: checkFullHouse_def Let_def)
  qed
qed

lemma threeRankOf_Some: "threeRankOf cs = Some t \<Longrightarrow> rankCount cs t \<ge> 3"
  unfolding threeRankOf_def
  by (drule fold_keepHigher_max) (auto simp: qualifies_def in_getRankCounts)

lemma pairRankOf_Some: "pairRankOf cs = Some p \<Longrightarrow> rankCount cs p \<ge> 2 \<and> Some p \<noteq> threeRankOf cs"
  unfolding pairRankOf_def
  by (drule fold_keepHigher_max) (auto simp: qualifies_def in_getRankCounts)

lemma checkFullHouse_five:
  assumes "checkFullHouse cs = Some h"
  shows "ranking h = FullHouse \<and> fiveOf cs h"
proof -
  from assms obtain t p where tp: "threeRankOf cs = Some t" "pairRankOf cs = Some p"
    by (auto simp: checkFullHouse_alt split: option.splits)
  with assms have h: "ranking h = FullHouse"
    "cards h = map Some (take 3 (filter (\<lambda>c. rank c = t) cs) @ take 2 (filter (\<lambda>c. rank c = p) cs))"
    by (auto simp: checkFullHouse_alt)
  have l: "length (take 3 (filter (\<lambda>c. rank c = t) cs) @ take 2 (filter (\<lambda>c. rank c = p) cs)) = 5"
    using threeRankOf_Some[OF tp(1)] pairRankOf_Some[OF tp(2)] by simp
  have s: "set (take 3 (filter (\<lambda>c. rank c = t) cs) @ take 2 (filter (\<lambda>c. rank c = p) cs)) \<subseteq> set cs"
    using set_take_subset[of 3 "filter (\<lambda>c. rank c = t) cs"]
      set_take_subset[of 2 "filter (\<lambda>c. rank c = p) cs"] by auto
  from fiveOfI[OF l s h(2)] h(1) show ?thesis by simp
qed

text \<open>No full house: no rank held three times next to another rank held twice.\<close>

lemma no_full_house:
  assumes "checkFullHouse cs = None" "a \<noteq> b" "rankCount cs a \<ge> 3" "rankCount cs b \<ge> 2"
  shows False
proof -
  have a: "(a, rankCount cs a) \<in> set (getRankCounts cs)" and b: "(b, rankCount cs b) \<in> set (getRankCounts cs)"
    using assms(3,4) cnt_pos_iff[where cs=cs and r=a] cnt_pos_iff[where cs=cs and r=b] by (auto simp: in_getRankCounts)
  have "qualifies None 3 (a, rankCount cs a)" using assms(3) by (simp add: qualifies_def)
  with a have "threeRankOf cs \<noteq> None"
    unfolding threeRankOf_def by (auto simp: fold_keepHigher_None_iff)
  then obtain t where t: "threeRankOf cs = Some t" by auto
  have "\<exists>e \<in> set (getRankCounts cs). qualifies (Some t) 2 e"
  proof (cases "t = a")
    case True
    with assms(2,4) have "qualifies (Some t) 2 (b, rankCount cs b)" by (auto simp: qualifies_def)
    with b show ?thesis by blast
  next
    case False
    with assms(3) have "qualifies (Some t) 2 (a, rankCount cs a)" by (auto simp: qualifies_def)
    with a show ?thesis by blast
  qed
  then have "pairRankOf cs \<noteq> None"
    unfolding pairRankOf_def t by (auto simp: fold_keepHigher_None_iff)
  with t assms(1) show False by (auto simp: checkFullHouse_alt)
qed

subsection \<open>Two pair\<close>

lemma pairsOf_alt: "pairsOf cs = filter (\<lambda>r. rankCount cs r \<ge> 2) (rankKeys cs)"
  by (simp add: pairsOf_def getRankCounts_def filter_map comp_def)

lemma distinct_pairsOf: "distinct (pairsOf cs)"
  by (simp add: pairsOf_alt distinct_rankKeys)

lemma set_pairsOf: "set (pairsOf cs) = {r. rankCount cs r \<ge> 2}"
proof -
  have "\<And>r. rankCount cs r \<ge> 2 \<Longrightarrow> r \<in> rank ` set cs"
    using cnt_pos_iff by (metis less_le_trans zero_less_numeral)
  then show ?thesis by (auto simp: pairsOf_alt set_rankKeys)
qed

lemma topTwoOf_props:
  assumes "length (pairsOf cs) \<ge> 2"
  shows "\<exists>a b. topTwoOf cs = [a, b] \<and> a \<noteq> b \<and> rankCount cs a \<ge> 2 \<and> rankCount cs b \<ge> 2"
proof -
  let ?s = "sort_key (\<lambda>r. - getRankValue r) (pairsOf cs)"
  have l: "length ?s \<ge> 2" using assms by simp
  then obtain a b rest where s: "?s = a # b # rest"
    by (cases ?s; cases "tl ?s") auto
  have d: "distinct ?s" using distinct_pairsOf by simp
  have m: "set ?s = {r. rankCount cs r \<ge> 2}" using set_pairsOf by simp
  from s d have "a \<noteq> b" by auto
  moreover from s m have "rankCount cs a \<ge> 2" "rankCount cs b \<ge> 2" by auto
  moreover from s have "topTwoOf cs = [a, b]" by (simp add: topTwoOf_def)
  ultimately show ?thesis by blast
qed

lemma checkTwoPair_alt:
  "checkTwoPair cs =
     (if length (pairsOf cs) \<ge> 2 then
        Some \<lparr>ranking = TwoPair,
              cards = map Some (concat (map (\<lambda>r. take 2 (filter (\<lambda>c. rank c = r) cs)) (topTwoOf cs)))
                      @ [first (sortCardsByRank (filter (\<lambda>c. rank c \<notin> set (topTwoOf cs)) cs))],
              description = ''Two Pair, '' @ rankStr (topTwoOf cs ! 0) @ ''s and ''
                            @ rankStr (topTwoOf cs ! 1) @ ''s''\<rparr>
      else None)"
  by (simp add: checkTwoPair_def Let_def pairsOf_def[symmetric] topTwoOf_def[symmetric])

lemma checkTwoPair_five:
  assumes "5 \<le> length cs" "checkFullHouse cs = None" "checkTwoPair cs = Some h"
  shows "ranking h = TwoPair \<and> fiveOf cs h"
proof -
  from assms(3) have l: "length (pairsOf cs) \<ge> 2"
    by (auto simp: checkTwoPair_alt split: if_splits)
  from topTwoOf_props[OF l] obtain a b where
    ab: "topTwoOf cs = [a, b]" "a \<noteq> b" "rankCount cs a \<ge> 2" "rankCount cs b \<ge> 2" by blast
  have "\<not> rankCount cs a \<ge> 3" using no_full_house[OF assms(2) ab(2) _ ab(4)] by blast
  moreover have "\<not> rankCount cs b \<ge> 3" using no_full_house[OF assms(2) ab(2)[symmetric] _ ab(3)] by blast
  ultimately have c: "rankCount cs a = 2" "rankCount cs b = 2" using ab(3,4) by linarith+
  let ?o = "filter (\<lambda>c. rank c \<notin> set (topTwoOf cs)) cs"
  have "sum_list (map (rankCount cs) [a, b]) + length (filter (\<lambda>c. rank c \<notin> set [a, b]) cs) = length cs"
    using ab(2) by (intro rank_counts_total) simp
  then have "1 \<le> length ?o" using c assms(1) ab(1) by simp
  then have "sortCardsByRank ?o \<noteq> []" by auto
  from first_nonempty[OF this] obtain x where x: "x \<in> set (sortCardsByRank ?o)"
    "first (sortCardsByRank ?o) = Some x" by blast
  then have xin: "x \<in> set cs" by auto
  let ?pc = "concat (map (\<lambda>r. take 2 (filter (\<lambda>c. rank c = r) cs)) (topTwoOf cs))"
  from assms(3) l x(2) have h: "ranking h = TwoPair" "cards h = map Some (?pc @ [x])"
    by (auto simp: checkTwoPair_alt)
  have len: "length (?pc @ [x]) = 5" using ab(1) c by simp
  have sub: "set (?pc @ [x]) \<subseteq> set cs"
    using xin ab(1) set_take_subset[of 2 "filter (\<lambda>c. rank c = a) cs"]
      set_take_subset[of 2 "filter (\<lambda>c. rank c = b) cs"] by auto
  from fiveOfI[OF len sub h(2)] h(1) show ?thesis by simp
qed

lemma orElse_simps [simp]:
  "orElse (Inr None) k = k"
  "orElse (Inr (Some h)) k = Inr h"
  "orElse (Inl e) k = Inl e"
  by (simp_all add: orElse_def)

lemma findBestHand_five:
  assumes n: "5 \<le> length cs"
  shows "\<exists>h. findBestHand cs = Inr h \<and> fiveOf cs h"
proof -
  obtain rf where rf: "checkRoyalFlush cs = Inr rf" "\<forall>h. rf = Some h \<longrightarrow> ranking h = RoyalFlush \<and> fiveOf cs h"
    using checkRoyalFlush_five[of cs] by blast
  obtain sf where sf: "checkStraightFlush cs = Inr sf" "\<forall>h. sf = Some h \<longrightarrow> ranking h = StraightFlush \<and> fiveOf cs h"
    using checkStraightFlush_five[of cs] by blast
  obtain fl where fl: "checkFlush cs = Inr fl" "\<forall>h. fl = Some h \<longrightarrow> ranking h = Flush \<and> fiveOf cs h"
    using checkFlush_five[of cs] by blast
  obtain st where st: "checkStraight cs = Inr st" "\<forall>h. st = Some h \<longrightarrow> ranking h = Straight \<and> fiveOf cs h"
    using checkStraight_five[of cs] by blast
  obtain hc where hc: "checkHighCard cs = Inr hc" "fiveOf cs hc"
    using checkHighCard_five[OF n] by blast
  show ?thesis
  proof (cases rf)
    case (Some h) with rf show ?thesis by (simp add: findBestHand_def)
  next
    case rfN: None
    show ?thesis
    proof (cases sf)
      case (Some h) with rf rfN sf show ?thesis by (simp add: findBestHand_def)
    next
      case sfN: None
      show ?thesis
      proof (cases "checkFourOfAKind cs")
        case (Some h)
        with checkFourOfAKind_five[OF n Some] rf rfN sf sfN show ?thesis by (simp add: findBestHand_def)
      next
        case fkN: None
        show ?thesis
        proof (cases "checkFullHouse cs")
          case (Some h)
          with checkFullHouse_five[OF Some] rf rfN sf sfN fkN show ?thesis by (simp add: findBestHand_def)
        next
          case fhN: None
          show ?thesis
          proof (cases fl)
            case (Some h) with rf rfN sf sfN fkN fhN fl show ?thesis by (simp add: findBestHand_def)
          next
            case flN: None
            show ?thesis
            proof (cases st)
              case (Some h) with rf rfN sf sfN fkN fhN fl flN st show ?thesis by (simp add: findBestHand_def)
            next
              case stN: None
              note base = rf(1) rfN sf(1) sfN fkN fhN fl(1) flN st(1) stN
              show ?thesis
              proof (cases "checkThreeOfAKind cs")
                case (Some h)
                with checkThreeOfAKind_five[OF n Some] base show ?thesis by (simp add: findBestHand_def)
              next
                case tkN: None
                show ?thesis
                proof (cases "checkTwoPair cs")
                  case (Some h)
                  with checkTwoPair_five[OF n fhN Some] base tkN show ?thesis by (simp add: findBestHand_def)
                next
                  case tpN: None
                  show ?thesis
                  proof (cases "checkPair cs")
                    case (Some h)
                    with checkPair_five[OF n Some] base tkN tpN show ?thesis by (simp add: findBestHand_def)
                  next
                    case None
                    with hc base tkN tpN show ?thesis by (simp add: findBestHand_def)
                  qed
                qed
              qed
            qed
          qed
        qed
      qed
    qed
  qed
qed

lemma evaluateHand_five:
  "5 \<le> length cs \<Longrightarrow> \<exists>h. evaluateHand cs = Inr h \<and> fiveOf cs h"
  using findBestHand_five[of cs] by (simp add: evaluateHand_def)

lemma compareCards_defined:
  "n \<le> length xs \<Longrightarrow> n \<le> length ys \<Longrightarrow> None \<notin> set xs \<Longrightarrow> None \<notin> set ys
   \<Longrightarrow> \<exists>r. compareCards xs ys n = Inr r"
proof (induction n arbitrary: xs ys)
  case 0
  then show ?case by simp
next
  case (Suc n)
  from Suc.prems obtain x xs' where x: "xs = x # xs'" by (cases xs) auto
  with Suc.prems obtain a where "x = Some a" by (cases x) auto
  with x have xs: "xs = Some a # xs'" by simp
  from Suc.prems obtain y ys' where y: "ys = y # ys'" by (cases ys) auto
  with Suc.prems obtain b where "y = Some b" by (cases y) auto
  with y have ys: "ys = Some b # ys'" by simp
  from Suc.prems xs ys have "\<exists>r. compareCards xs' ys' n = Inr r"
    by (intro Suc.IH) auto
  then show ?case by (auto simp: xs ys)
qed

lemma fiveOf_no_None: "fiveOf cs h \<Longrightarrow> None \<notin> set (cards h) \<and> length (cards h) = 5"
  by (auto simp: fiveOf_def)

lemma compareHands_defined:
  "fiveOf cs h \<Longrightarrow> fiveOf ds g \<Longrightarrow> \<exists>r. compareHands h g = Inr r"
  using compareCards_defined[of 5 "cards h" "cards g"] fiveOf_no_None[of cs h] fiveOf_no_None[of ds g]
  by (auto simp: compareHands_def Let_def)

text \<open>
  Claim C9.  On every list of at least five cards \<^verbatim>\<open>evaluateHand\<close> returns a hand, the
  hand has exactly five cards, and each of them is a card of the input; so
  \<^verbatim>\<open>compareHands\<close>, which reads the cells 0 to 4 of both hands, returns a result on
  any two hands that \<^verbatim>\<open>evaluateHand\<close> returned.
\<close>

theorem evaluateHand_five_cards:
  assumes "5 \<le> length cs" "5 \<le> length ds"
  shows "\<exists>h g r. evaluateHand cs = Inr h \<and> length (cards h) = 5
            \<and> (\<forall>c \<in> set (cards h). \<exists>x \<in> set cs. c = Some x)
            \<and> evaluateHand ds = Inr g \<and> compareHands h g = Inr r"
proof -
  from evaluateHand_five[OF assms(1)] obtain h where h: "evaluateHand cs = Inr h" "fiveOf cs h" by blast
  from evaluateHand_five[OF assms(2)] obtain g where g: "evaluateHand ds = Inr g" "fiveOf ds g" by blast
  from compareHands_defined[OF h(2) g(2)] obtain r where "compareHands h g = Inr r" by blast
  with h g show ?thesis unfolding fiveOf_def by blast
qed

subsection \<open>Outs\<close>

lemma Card_eq_iff: "(c :: Card) = d \<longleftrightarrow> rank c = rank d \<and> suit c = suit d"
  by (cases c; cases d) auto

lemma distinct_createDeck: "distinct createDeck"
  by (simp add: createDeck_def SUITS_def RANKS_def)

lemma set_createDeck: "set createDeck = UNIV"
proof -
  have "c \<in> set createDeck" for c
  proof -
    obtain s r where c: "c = \<lparr>suit = s, rank = r\<rparr>" by (cases c) auto
    show ?thesis unfolding c by (cases s; cases r) (simp_all add: createDeck_def SUITS_def RANKS_def)
  qed
  then show ?thesis by auto
qed

lemma card_Card_UNIV: "card (UNIV :: Card set) = 52"
proof -
  have l: "length createDeck = 52" by (simp add: createDeck_def SUITS_def RANKS_def)
  have "card (set createDeck) = length createDeck" using distinct_createDeck by (rule distinct_card)
  then show ?thesis unfolding set_createDeck l .
qed

lemma available_count:
  "length (filter (\<lambda>c. \<not> (\<exists>known \<in> set ks. rank known = rank c \<and> suit known = suit c)) createDeck)
   = 52 - card (set (ks :: Card list))"
proof -
  have e: "(\<lambda>c. \<not> (\<exists>known \<in> set ks. rank known = rank c \<and> suit known = suit c)) = (\<lambda>c. c \<notin> set ks)"
    by (intro ext) (metis Card_eq_iff)
  have "length (filter (\<lambda>c. c \<notin> set ks) createDeck) = card (set (filter (\<lambda>c. c \<notin> set ks) createDeck))"
    using distinct_createDeck distinct_card[of "filter (\<lambda>c. c \<notin> set ks) createDeck"]
    by (simp only: distinct_filter)
  also have "set (filter (\<lambda>c. c \<notin> set ks) createDeck) = UNIV - set ks"
    by (auto simp: set_createDeck)
  also have "card (UNIV - set ks) = 52 - card (set ks)"
    using card_Card_UNIV by (simp add: card_Diff_subset)
  finally show ?thesis by (simp only: e)
qed

lemma outsLoop_bound:
  assumes "fiveOf ks cur"
  shows "\<exists>n. outsLoop hero comm cur av k = Inr n \<and> k \<le> n \<and> n \<le> k + length av"
proof (induction av arbitrary: k)
  case Nil
  then show ?case by simp
next
  case (Cons c av)
  let ?all = "hero @ (comm @ [c]) @ createDummyCards (5 - length (comm @ [c]))"
  have "5 \<le> length ?all" by (simp add: createDummyCards_def)
  from evaluateHand_five[OF this] obtain h where h: "evaluateHand ?all = Inr h" "fiveOf ?all h" by blast
  from compareHands_defined[OF h(2) assms] obtain r where r: "compareHands h cur = Inr r" by blast
  from Cons.IH[of "if r > 0 then k + 1 else k"] obtain n where
    n: "outsLoop hero comm cur av (if r > 0 then k + 1 else k) = Inr n"
       "(if r > 0 then k + 1 else k) \<le> n" "n \<le> (if r > 0 then k + 1 else k) + length av" by blast
  from h(1) r n(1) have "outsLoop hero comm cur (c # av) k = Inr n" by (simp add: Let_def)
  with n(2,3) show ?case by (auto split: if_splits)
qed

text \<open>
  Claim C10.  \<^verbatim>\<open>countOuts\<close> returns 0 when the board already holds five or more cards,
  and in every case it returns a number between 0 and 52 minus the number of different
  known cards (hero's and the board's).
\<close>

theorem countOuts_bounds:
  "(5 \<le> length communityCs \<longrightarrow> countOuts heroCs communityCs = Inr 0)
   \<and> (\<exists>n. countOuts heroCs communityCs = Inr n \<and> n \<le> 52 - card (set (heroCs @ communityCs)))"
proof (cases "5 \<le> length communityCs")
  case True
  then show ?thesis by (simp add: countOuts_def)
next
  case False
  let ?ks = "heroCs @ communityCs"
  let ?cur = "if length ?ks \<ge> 5 then ?ks else ?ks @ createDummyCards (5 - length ?ks)"
  have "5 \<le> length ?cur" by (simp add: createDummyCards_def)
  from evaluateHand_five[OF this] obtain cur where cur: "evaluateHand ?cur = Inr cur" "fiveOf ?cur cur"
    by blast
  let ?av = "filter (\<lambda>c. \<not> (\<exists>known \<in> set ?ks. rank known = rank c \<and> suit known = suit c)) createDeck"
  from outsLoop_bound[OF cur(2), of heroCs communityCs ?av 0] obtain n where
    n: "outsLoop heroCs communityCs cur ?av 0 = Inr n" "n \<le> length ?av" by auto
  have "countOuts heroCs communityCs = Inr n"
    using False cur(1) n(1) unfolding countOuts_def Let_def by simp
  moreover have "n \<le> 52 - card (set ?ks)" using n(2) available_count[of ?ks] by simp
  ultimately show ?thesis using False by blast
qed

subsection \<open>Reordering the input\<close>

lemma sorted_ranks_perm:
  assumes "mset xs = mset ys"
  shows "map rank (sortCardsByRank xs) = map rank (sortCardsByRank ys)"
proof -
  let ?f = "\<lambda>c. - getRankValue (rank c)"
  have key: "map ?f (sort_key ?f zs) = sort (map ?f zs)" for zs :: "Card list"
    by (rule properties_for_sort[symmetric]) simp_all
  have "mset (map ?f xs) = mset (map ?f ys)" using assms by (metis mset_map)
  then have "sort (map ?f xs) = sort (map ?f ys)"
    by (metis properties_for_sort sorted_sort mset_sort)
  then have m: "map ?f (sort_key ?f xs) = map ?f (sort_key ?f ys)" by (simp only: key)
  have inj: "?f c = ?f d \<Longrightarrow> rank c = rank d" for c d :: Card
    using getRankValue_inj by simp
  have "map (\<lambda>v. inv getRankValue (- v)) (map ?f zs) = map rank zs" for zs :: "Card list"
  proof -
    have "inj getRankValue" by (auto simp: inj_on_def dest: getRankValue_inj)
    then show ?thesis by (simp add: comp_def)
  qed
  with m show ?thesis unfolding sortCardsByRank_def by metis
qed

lemma find_rank_sig:
  "map_option rank (find (\<lambda>c. rank c = rk) zs) = (if rk \<in> set (map rank zs) then Some rk else None)"
  by (induction zs) auto

lemma find_rank_sig_cong:
  "map rank s1 = map rank s2 \<Longrightarrow>
   map (map_option rank) (map (\<lambda>rk. find (\<lambda>c. rank c = rk) s1) rs)
   = map (map_option rank) (map (\<lambda>rk. find (\<lambda>c. rank c = rk) s2) rs)"
  by (simp add: find_rank_sig comp_def)

lemma first_sig: "map_option rank (first zs) = first (map rank zs)"
  by (cases zs) (simp_all add: first_def)

lemma rankOfFirst_sig: "rankOfFirst cs = firstRankSig (map (map_option rank) cs)"
  by (cases cs; cases "hd cs") (simp_all add: rankOfFirst_def firstRankSig_def)

lemma rankOfFirst_cong:
  "map (map_option rank) cs = map (map_option rank) ds \<Longrightarrow> rankOfFirst cs = rankOfFirst ds"
  by (simp add: rankOfFirst_sig)

lemma sameSig_refl [simp]: "sameSig r r"
  by (simp add: sameSig_def)

lemma sameSig_Some:
  "ranking h = ranking g \<Longrightarrow> map (map_option rank) (cards h) = map (map_option rank) (cards g)
   \<Longrightarrow> description h = description g \<Longrightarrow> sameSig (Inr (Some h)) (Inr (Some g))"
  by (simp add: sameSig_def rankSig_def)

lemma sameSig_cases:
  assumes "sameSig r1 r2"
  obtains (err) e where "r1 = Inl e" "r2 = Inl e"
  | (none) "r1 = Inr None" "r2 = Inr None"
  | (some) h g where "r1 = Inr (Some h)" "r2 = Inr (Some g)" "rankSig h = rankSig g"
  using assms unfolding sameSig_def
  by (cases r1; cases r2) (auto simp: map_option_case split: option.splits)

lemma regularStraights_sig:
  "map rank s1 = map rank s2 \<Longrightarrow> sameSig (regularStraights s1 rs) (regularStraights s2 rs)"
proof (induction rs)
  case Nil
  then show ?case by simp
next
  case (Cons r rs)
  let ?c1 = "map (\<lambda>rk. find (\<lambda>c. rank c = rk) s1) (take 5 (r # rs))"
  let ?c2 = "map (\<lambda>rk. find (\<lambda>c. rank c = rk) s2) (take 5 (r # rs))"
  have c: "map (map_option rank) ?c1 = map (map_option rank) ?c2"
    using Cons.prems by (rule find_rank_sig_cong)
  then have f: "rankOfFirst ?c1 = rankOfFirst ?c2" by (rule rankOfFirst_cong)
  show ?case
  proof (cases "length (r # rs) < 5")
    case True
    then show ?thesis by simp
  next
    case False
    show ?thesis
    proof (cases "isConsecutive (map getRankValue (take 5 (r # rs)))")
      case True
      show ?thesis
      proof (cases "rankOfFirst ?c1")
        case (Inl e)
        with f have "rankOfFirst ?c2 = Inl e" by simp
        with Inl False True show ?thesis by (simp add: Let_def sameSig_def del: take_Suc_Cons)
      next
        case (Inr hr)
        with f have "rankOfFirst ?c2 = Inr hr" by simp
        with Inr False True c show ?thesis
          by (simp add: Let_def sameSig_def rankSig_def del: take_Suc_Cons)
      qed
    next
      case c: False
      with False Cons.IH[OF Cons.prems] show ?thesis by (simp add: Let_def del: take_Suc_Cons)
    qed
  qed
qed

lemma map_option_rank_Some: "map (map_option rank) (map Some zs) = map Some (map rank zs)"
  by (simp add: comp_def)

lemma checkStraight_sig:
  assumes "mset xs = mset ys"
  shows "sameSig (checkStraight xs) (checkStraight ys)"
proof -
  let ?sx = "sortCardsByRank xs" and ?sy = "sortCardsByRank ys"
  have s: "map rank ?sx = map rank ?sy"
    using assms by (rule sorted_ranks_perm)
  let ?u = "dedup (map rank ?sx)"
  have uy: "dedup (map rank ?sy) = ?u" by (simp only: s)
  let ?wheel = "RA \<in> set ?u \<and> R2 \<in> set ?u \<and> R3 \<in> set ?u \<and> R4 \<in> set ?u \<and> R5 \<in> set ?u"
  let ?wx = "map (\<lambda>rk. find (\<lambda>c. rank c = rk) ?sx) [R5, R4, R3, R2, RA]"
  let ?wy = "map (\<lambda>rk. find (\<lambda>c. rank c = rk) ?sy) [R5, R4, R3, R2, RA]"
  have w: "map (map_option rank) ?wx = map (map_option rank) ?wy"
    using s by (rule find_rank_sig_cong)
  show ?thesis
  proof (cases ?wheel)
    case True
    have x: "checkStraight xs = Inr (Some \<lparr>ranking = Straight, cards = ?wx,
                 description = ''Straight, 5 high (Wheel)''\<rparr>)"
      using True unfolding checkStraight_def Let_def by (simp only: if_True simp_thms)
    have y: "checkStraight ys = Inr (Some \<lparr>ranking = Straight, cards = ?wy,
                 description = ''Straight, 5 high (Wheel)''\<rparr>)"
      using True unfolding checkStraight_def Let_def uy by (simp only: if_True simp_thms)
    show ?thesis unfolding x y using w by (intro sameSig_Some) simp_all
  next
    case False
    have x: "checkStraight xs = regularStraights ?sx ?u"
      using False unfolding checkStraight_def Let_def by (simp only: if_False simp_thms)
    have y: "checkStraight ys = regularStraights ?sy ?u"
      using False unfolding checkStraight_def Let_def uy by (simp only: if_False simp_thms)
    show ?thesis unfolding x y using s by (rule regularStraights_sig)
  qed
qed

lemma suited_perm: "mset xs = mset ys \<Longrightarrow> mset (filter P xs) = mset (filter P ys)"
  by (metis mset_filter)

lemma length_perm: "mset xs = mset ys \<Longrightarrow> length xs = length ys"
  by (metis size_mset)

lemma straightFlushLoop_sig:
  assumes "mset xs = mset ys"
  shows "sameSig (straightFlushLoop xs ss) (straightFlushLoop ys ss)"
proof (induction ss)
  case Nil
  then show ?case by simp
next
  case (Cons s ss)
  let ?x = "filter (\<lambda>c. suit c = s) xs" and ?y = "filter (\<lambda>c. suit c = s) ys"
  have p: "mset ?x = mset ?y" using assms by (rule suited_perm)
  have l: "length ?x = length ?y" using p by (rule length_perm)
  from checkStraight_sig[OF p] show ?case
  proof (cases rule: sameSig_cases)
    case (err e)
    with l Cons.IH show ?thesis by (auto simp: Let_def)
  next
    case none
    with l Cons.IH show ?thesis by (auto simp: Let_def)
  next
    case (some h g)
    then have c: "map (map_option rank) (cards h) = map (map_option rank) (cards g)"
      by (simp add: rankSig_def)
    then have f: "rankOfFirst (cards h) = rankOfFirst (cards g)" by (rule rankOfFirst_cong)
    show ?thesis
    proof (cases "rankOfFirst (cards h)")
      case (Inl e)
      with f have "rankOfFirst (cards g) = Inl e" by simp
      with Inl some l Cons.IH show ?thesis by (auto simp: Let_def sameSig_def)
    next
      case (Inr hr)
      with f have "rankOfFirst (cards g) = Inr hr" by simp
      with Inr some l c Cons.IH show ?thesis by (auto simp: Let_def sameSig_def rankSig_def)
    qed
  qed
qed

lemma checkStraightFlush_sig:
  "mset xs = mset ys \<Longrightarrow> sameSig (checkStraightFlush xs) (checkStraightFlush ys)"
  unfolding checkStraightFlush_def by (rule straightFlushLoop_sig)

lemma checkRoyalFlush_sig:
  assumes "mset xs = mset ys"
  shows "sameSig (checkRoyalFlush xs) (checkRoyalFlush ys)"
  using checkStraightFlush_sig[OF assms]
proof (cases rule: sameSig_cases)
  case (err e)
  then show ?thesis by (simp add: checkRoyalFlush_def)
next
  case none
  then show ?thesis by (simp add: checkRoyalFlush_def)
next
  case (some h g)
  then have c: "map (map_option rank) (cards h) = map (map_option rank) (cards g)"
    by (simp add: rankSig_def)
  then have f: "rankOfFirst (cards h) = rankOfFirst (cards g)" by (rule rankOfFirst_cong)
  show ?thesis
  proof (cases "rankOfFirst (cards h)")
    case (Inl e)
    with f have "rankOfFirst (cards g) = Inl e" by simp
    with Inl some show ?thesis by (simp add: checkRoyalFlush_def)
  next
    case (Inr hr)
    with f have "rankOfFirst (cards g) = Inr hr" by simp
    with Inr some c show ?thesis by (simp add: checkRoyalFlush_def sameSig_def rankSig_def)
  qed
qed

lemma flushLoop_sig:
  assumes "mset xs = mset ys"
  shows "sameSig (flushLoop xs ss) (flushLoop ys ss)"
proof (induction ss)
  case Nil
  then show ?case by simp
next
  case (Cons s ss)
  let ?x = "filter (\<lambda>c. suit c = s) xs" and ?y = "filter (\<lambda>c. suit c = s) ys"
  have p: "mset ?x = mset ?y" using assms by (rule suited_perm)
  have l: "length ?x = length ?y" using p by (rule length_perm)
  have "map rank (take 5 (sortCardsByRank ?x)) = map rank (take 5 (sortCardsByRank ?y))"
    using sorted_ranks_perm[OF p] by (simp add: take_map[symmetric])
  then have c: "map (map_option rank) (map Some (take 5 (sortCardsByRank ?x)))
              = map (map_option rank) (map Some (take 5 (sortCardsByRank ?y)))"
    by (simp only: map_option_rank_Some)
  then have f: "rankOfFirst (map Some (take 5 (sortCardsByRank ?x)))
              = rankOfFirst (map Some (take 5 (sortCardsByRank ?y)))" by (rule rankOfFirst_cong)
  show ?case
  proof (cases "rankOfFirst (map Some (take 5 (sortCardsByRank ?x)))")
    case (Inl e)
    with f have "rankOfFirst (map Some (take 5 (sortCardsByRank ?y))) = Inl e" by simp
    with Inl l Cons.IH show ?thesis by (auto simp: Let_def sameSig_def)
  next
    case (Inr hr)
    with f have "rankOfFirst (map Some (take 5 (sortCardsByRank ?y))) = Inr hr" by simp
    with Inr l c Cons.IH show ?thesis by (auto simp: Let_def sameSig_def rankSig_def)
  qed
qed

lemma checkFlush_sig:
  "mset xs = mset ys \<Longrightarrow> sameSig (checkFlush xs) (checkFlush ys)"
  unfolding checkFlush_def by (rule flushLoop_sig)

lemma cnt_perm: "mset xs = mset ys \<Longrightarrow> rankCount xs r = rankCount ys r"
  by (rule length_perm) (rule suited_perm)

lemma set_perm: "mset xs = mset ys \<Longrightarrow> set xs = set ys"
  by (rule mset_eq_setD)

lemma getRankCounts_perm:
  assumes "mset xs = mset ys"
  shows "set (getRankCounts xs) = set (getRankCounts ys)"
  unfolding set_getRankCounts using set_perm[OF assms] cnt_perm[OF assms] by auto

lemma ranks_of_kind: "map rank (filter (\<lambda>c. rank c = r) cs) = replicate (rankCount cs r) r"
  by (induction cs) auto

lemma ranks_of_kind_take:
  "map rank (take k (filter (\<lambda>c. rank c = r) cs)) = replicate (min k (rankCount cs r)) r"
  by (simp add: take_map[symmetric] ranks_of_kind min.commute)

lemma kicker_ranks_perm:
  assumes "mset xs = mset ys"
  shows "map rank (take j (sortCardsByRank (filter P xs)))
       = map rank (take j (sortCardsByRank (filter P ys)))"
  using sorted_ranks_perm[OF suited_perm[OF assms, of P]] by (simp add: take_map[symmetric])

lemma first_kicker_perm:
  assumes "mset xs = mset ys"
  shows "map_option rank (first (sortCardsByRank (filter P xs)))
       = map_option rank (first (sortCardsByRank (filter P ys)))"
  using sorted_ranks_perm[OF suited_perm[OF assms, of P]] by (simp add: first_sig)

lemma find_unique_set:
  assumes "set es = set es'"
    and u: "\<And>x y. x \<in> set es \<Longrightarrow> y \<in> set es \<Longrightarrow> P x \<Longrightarrow> P y \<Longrightarrow> x = y"
  shows "find P es = find P es'"
proof (cases "find P es")
  case None
  then have "\<forall>x \<in> set es'. \<not> P x" using assms(1) by (auto simp: find_None_iff)
  then have "find P es' = None" by (simp add: find_None_iff)
  with None show ?thesis by simp
next
  case (Some x)
  then have x: "P x" "x \<in> set es" by (auto dest: find_SomeD)
  then have "find P es' \<noteq> None" using assms(1) by (auto simp: find_None_iff)
  then obtain y where y: "find P es' = Some y" by auto
  then have "P y" "y \<in> set es" using assms(1) by (auto dest: find_SomeD)
  with x u have "x = y" by blast
  with Some y show ?thesis by simp
qed

lemma fold_keepHigher_set:
  assumes "set es = set es'"
  shows "fold (keepHigher excl k) es None = fold (keepHigher excl k) es' None"
proof (cases "fold (keepHigher excl k) es None")
  case None
  then have "fold (keepHigher excl k) es' None = None"
    using assms by (simp add: fold_keepHigher_None_iff)
  with None show ?thesis by simp
next
  case (Some r)
  from fold_keepHigher_max[OF Some] obtain n where
    r: "(r, n) \<in> set es" "qualifies excl k (r, n)"
    and rmax: "\<forall>e \<in> set es. qualifies excl k e \<longrightarrow> getRankValue (fst e) \<le> getRankValue r"
    by auto
  have "fold (keepHigher excl k) es' None \<noteq> None"
    using r assms by (auto simp: fold_keepHigher_None_iff)
  then obtain r' where s': "fold (keepHigher excl k) es' None = Some r'" by auto
  from fold_keepHigher_max[OF s'] obtain n' where
    r': "(r', n') \<in> set es'" "qualifies excl k (r', n')"
    and rmax': "\<forall>e \<in> set es'. qualifies excl k e \<longrightarrow> getRankValue (fst e) \<le> getRankValue r'"
    by auto
  have "getRankValue r \<le> getRankValue r'" using rmax' r assms by fastforce
  moreover have "getRankValue r' \<le> getRankValue r" using rmax r' assms by fastforce
  ultimately have "r = r'" by (intro getRankValue_inj) simp
  with Some s' show ?thesis by simp
qed

lemma threeRankOf_perm: "mset xs = mset ys \<Longrightarrow> threeRankOf xs = threeRankOf ys"
  unfolding threeRankOf_def by (rule fold_keepHigher_set) (rule getRankCounts_perm)

lemma pairRankOf_perm: "mset xs = mset ys \<Longrightarrow> pairRankOf xs = pairRankOf ys"
  unfolding pairRankOf_def
  by (simp add: threeRankOf_perm[of xs ys] fold_keepHigher_set[OF getRankCounts_perm[of xs ys]])

lemma checkFullHouse_sig:
  assumes "mset xs = mset ys"
  shows "map_option rankSig (checkFullHouse xs) = map_option rankSig (checkFullHouse ys)"
  unfolding checkFullHouse_alt
  by (simp add: threeRankOf_perm[OF assms] pairRankOf_perm[OF assms] rankSig_def
      map_option_rank_Some ranks_of_kind_take cnt_perm[OF assms]
      del: map_map split: option.splits)

lemma two_kinds_bound:
  assumes "a \<noteq> b"
  shows "rankCount cs a + rankCount cs b \<le> length cs"
  using rank_counts_total[of "[a, b]" cs] assms by simp

lemma kind_sig:
  assumes p: "mset xs = mset ys"
  shows "map (map_option rank)
           (map Some (filter (\<lambda>c. rank c = r) xs
                      @ take j (sortCardsByRank (filter (\<lambda>c. rank c \<noteq> r) xs))))
       = map (map_option rank)
           (map Some (filter (\<lambda>c. rank c = r) ys
                      @ take j (sortCardsByRank (filter (\<lambda>c. rank c \<noteq> r) ys))))"
  using kicker_ranks_perm[OF p, of j "\<lambda>c. rank c \<noteq> r"]
  by (simp add: map_option_rank_Some ranks_of_kind cnt_perm[OF p] del: map_map)

lemma checkFourOfAKind_sig:
  assumes p: "mset xs = mset ys" and n: "length xs \<le> 7"
  shows "map_option rankSig (checkFourOfAKind xs) = map_option rankSig (checkFourOfAKind ys)"
proof -
  have u: "x = y" if h: "x \<in> set (getRankCounts xs)" "y \<in> set (getRankCounts xs)"
    "(\<lambda>(r, n). n = 4) x" "(\<lambda>(r, n). n = 4) y" for x y
  proof -
    obtain a b where ab: "x = (a, rankCount xs a)" "y = (b, rankCount xs b)" "rankCount xs a = 4" "rankCount xs b = 4"
      using h by (auto simp: in_getRankCounts)
    have "a = b"
    proof (rule ccontr)
      assume "a \<noteq> b"
      from two_kinds_bound[OF this, of xs] ab n show False by simp
    qed
    with ab show ?thesis by simp
  qed
  have f: "find (\<lambda>(r, n). n = 4) (getRankCounts xs) = find (\<lambda>(r, n). n = 4) (getRankCounts ys)"
    using getRankCounts_perm[OF p] u by (rule find_unique_set)
  show ?thesis
  proof (cases "find (\<lambda>(r, n). n = 4) (getRankCounts ys)")
    case None
    with f show ?thesis by (simp add: checkFourOfAKind_def)
  next
    case (Some e)
    obtain r k where e: "e = (r, k)" by (cases e)
    have k: "map_option rank (first (sortCardsByRank (filter (\<lambda>c. rank c \<noteq> r) xs)))
           = map_option rank (first (sortCardsByRank (filter (\<lambda>c. rank c \<noteq> r) ys)))"
      using p by (rule first_kicker_perm)
    from f Some e k show ?thesis
      by (simp add: checkFourOfAKind_def Let_def rankSig_def map_option_rank_Some
          ranks_of_kind cnt_perm[OF p] del: map_map)
  qed
qed

lemma checkThreeOfAKind_sig:
  assumes p: "mset xs = mset ys" and nf: "checkFullHouse xs = None"
  shows "map_option rankSig (checkThreeOfAKind xs) = map_option rankSig (checkThreeOfAKind ys)"
proof -
  have u: "x = y" if h: "x \<in> set (getRankCounts xs)" "y \<in> set (getRankCounts xs)"
    "(\<lambda>(r, n). n = 3) x" "(\<lambda>(r, n). n = 3) y" for x y
  proof -
    obtain a b where ab: "x = (a, rankCount xs a)" "y = (b, rankCount xs b)" "rankCount xs a = 3" "rankCount xs b = 3"
      using h by (auto simp: in_getRankCounts)
    have "a = b"
    proof (rule ccontr)
      assume "a \<noteq> b"
      from no_full_house[OF nf this] ab show False by simp
    qed
    with ab show ?thesis by simp
  qed
  have f: "find (\<lambda>(r, n). n = 3) (getRankCounts xs) = find (\<lambda>(r, n). n = 3) (getRankCounts ys)"
    using getRankCounts_perm[OF p] u by (rule find_unique_set)
  show ?thesis
  proof (cases "find (\<lambda>(r, n). n = 3) (getRankCounts ys)")
    case None
    with f show ?thesis by (simp add: checkThreeOfAKind_def)
  next
    case (Some e)
    obtain r k where e: "e = (r, k)" by (cases e)
    from f Some e kind_sig[OF p, of r 2] show ?thesis
      by (simp add: checkThreeOfAKind_def Let_def rankSig_def del: map_map map_append)
  qed
qed

lemma pairsOf_perm:
  assumes p: "mset xs = mset ys"
  shows "set (pairsOf xs) = set (pairsOf ys)" and "length (pairsOf xs) = length (pairsOf ys)"
proof -
  show s: "set (pairsOf xs) = set (pairsOf ys)"
    by (simp add: set_pairsOf cnt_perm[OF p])
  have "card (set (pairsOf xs)) = card (set (pairsOf ys))" using s by simp
  then show "length (pairsOf xs) = length (pairsOf ys)"
    by (simp add: distinct_card distinct_pairsOf)
qed

lemma topTwoOf_perm:
  assumes p: "mset xs = mset ys"
  shows "topTwoOf xs = topTwoOf ys"
proof -
  let ?f = "\<lambda>r. - getRankValue r"
  have m: "mset (pairsOf xs) = mset (sort_key ?f (pairsOf ys))"
    using pairsOf_perm(1)[OF p] distinct_pairsOf
    by (simp add: set_eq_iff_mset_eq_distinct[symmetric])
  have i: "inj_on ?f (set (pairsOf xs))"
    by (auto simp: inj_on_def dest: getRankValue_inj)
  have "sort_key ?f (pairsOf xs) = sort_key ?f (pairsOf ys)"
    using m i by (rule sort_key_inj_key_eq) simp
  then show ?thesis by (simp add: topTwoOf_def)
qed

lemma pair_cards_sig:
  "map rank (concat (map (\<lambda>r. take 2 (filter (\<lambda>c. rank c = r) cs)) rs))
   = concat (map (\<lambda>r. replicate (min 2 (rankCount cs r)) r) rs)"
  by (induction rs) (simp_all add: ranks_of_kind_take)

lemma checkTwoPair_sig:
  assumes p: "mset xs = mset ys"
  shows "map_option rankSig (checkTwoPair xs) = map_option rankSig (checkTwoPair ys)"
proof -
  have k: "map_option rank (first (sortCardsByRank (filter (\<lambda>c. rank c \<notin> set (topTwoOf ys)) xs)))
         = map_option rank (first (sortCardsByRank (filter (\<lambda>c. rank c \<notin> set (topTwoOf ys)) ys)))"
    using p by (rule first_kicker_perm)
  have c: "map rank (concat (map (\<lambda>r. take 2 (filter (\<lambda>c. rank c = r) xs)) (topTwoOf ys)))
         = map rank (concat (map (\<lambda>r. take 2 (filter (\<lambda>c. rank c = r) ys)) (topTwoOf ys)))"
    by (simp only: pair_cards_sig cnt_perm[OF p])
  show ?thesis
    unfolding checkTwoPair_alt topTwoOf_perm[OF p] pairsOf_perm(2)[OF p]
    using k c
    by (simp add: rankSig_def map_option_rank_Some del: map_map map_concat)
qed

lemma checkPair_sig:
  assumes p: "mset xs = mset ys" and nt: "checkTwoPair xs = None"
  shows "map_option rankSig (checkPair xs) = map_option rankSig (checkPair ys)"
proof -
  have short: "length (pairsOf xs) < 2"
    using nt by (simp add: checkTwoPair_alt split: if_splits)
  have u: "x = y" if h: "x \<in> set (getRankCounts xs)" "y \<in> set (getRankCounts xs)"
    "(\<lambda>(r, n). n = 2) x" "(\<lambda>(r, n). n = 2) y" for x y
  proof -
    obtain a b where ab: "x = (a, rankCount xs a)" "y = (b, rankCount xs b)" "rankCount xs a = 2" "rankCount xs b = 2"
      using h by (auto simp: in_getRankCounts)
    have "a = b"
    proof (rule ccontr)
      assume ne: "a \<noteq> b"
      have "{a, b} \<subseteq> set (pairsOf xs)" using ab by (simp add: set_pairsOf)
      then have "card {a, b} \<le> card (set (pairsOf xs))" by (intro card_mono) simp_all
      then have "2 \<le> length (pairsOf xs)" using ne by (simp add: distinct_card distinct_pairsOf)
      with short show False by simp
    qed
    with ab show ?thesis by simp
  qed
  have f: "find (\<lambda>(r, n). n = 2) (getRankCounts xs) = find (\<lambda>(r, n). n = 2) (getRankCounts ys)"
    using getRankCounts_perm[OF p] u by (rule find_unique_set)
  show ?thesis
  proof (cases "find (\<lambda>(r, n). n = 2) (getRankCounts ys)")
    case None
    with f show ?thesis by (simp add: checkPair_def)
  next
    case (Some e)
    obtain r k where e: "e = (r, k)" by (cases e)
    from f Some e kind_sig[OF p, of r 3] show ?thesis
      by (simp add: checkPair_def Let_def rankSig_def del: map_map map_append)
  qed
qed

lemma checkHighCard_sig:
  assumes p: "mset xs = mset ys"
  shows "map_sum id rankSig (checkHighCard xs) = map_sum id rankSig (checkHighCard ys)"
proof -
  have "map rank (take 5 (sortCardsByRank xs)) = map rank (take 5 (sortCardsByRank ys))"
    using sorted_ranks_perm[OF p] by (simp add: take_map[symmetric])
  then have c: "map (map_option rank) (map Some (take 5 (sortCardsByRank xs)))
              = map (map_option rank) (map Some (take 5 (sortCardsByRank ys)))"
    by (simp only: map_option_rank_Some)
  then have f: "rankOfFirst (map Some (take 5 (sortCardsByRank xs)))
              = rankOfFirst (map Some (take 5 (sortCardsByRank ys)))" by (rule rankOfFirst_cong)
  show ?thesis
  proof (cases "rankOfFirst (map Some (take 5 (sortCardsByRank xs)))")
    case (Inl e)
    with f have "rankOfFirst (map Some (take 5 (sortCardsByRank ys))) = Inl e" by simp
    with Inl show ?thesis by (simp add: checkHighCard_def Let_def)
  next
    case (Inr hr)
    with f have "rankOfFirst (map Some (take 5 (sortCardsByRank ys))) = Inr hr" by simp
    with Inr c show ?thesis by (simp add: checkHighCard_def Let_def rankSig_def del: map_map)
  qed
qed

lemma orElse_sig:
  assumes "sameSig r1 r2"
    and "r1 = Inr None \<Longrightarrow> r2 = Inr None \<Longrightarrow> sameResult k1 k2"
  shows "sameResult (orElse r1 k1) (orElse r2 k2)"
  using assms(1)
proof (cases rule: sameSig_cases)
  case (err e)
  then show ?thesis by (simp add: sameResult_def)
next
  case none
  with assms(2) show ?thesis by simp
next
  case (some h g)
  then show ?thesis by (simp add: sameResult_def)
qed

lemma sameSig_option:
  "map_option rankSig o1 = map_option rankSig o2 \<Longrightarrow> sameSig (Inr o1) (Inr o2)"
  by (simp add: sameSig_def)

lemma findBestHand_sig:
  assumes p: "mset xs = mset ys" and n: "length xs \<le> 7"
  shows "sameResult (findBestHand xs) (findBestHand ys)"
  unfolding findBestHand_def
proof (intro orElse_sig)
  show "sameSig (checkRoyalFlush xs) (checkRoyalFlush ys)" using p by (rule checkRoyalFlush_sig)
  show "sameSig (checkStraightFlush xs) (checkStraightFlush ys)" using p by (rule checkStraightFlush_sig)
  show "sameSig (Inr (checkFourOfAKind xs)) (Inr (checkFourOfAKind ys))"
    using p n by (intro sameSig_option checkFourOfAKind_sig)
  show "sameSig (Inr (checkFullHouse xs)) (Inr (checkFullHouse ys))"
    using p by (intro sameSig_option checkFullHouse_sig)
  show "sameSig (checkFlush xs) (checkFlush ys)" using p by (rule checkFlush_sig)
  show "sameSig (checkStraight xs) (checkStraight ys)" using p by (rule checkStraight_sig)
  show "sameSig (Inr (checkThreeOfAKind xs)) (Inr (checkThreeOfAKind ys))"
    if "Inr (checkFullHouse xs) = (Inr None :: error + HandEvaluation option)"
    using p that by (intro sameSig_option checkThreeOfAKind_sig) simp_all
  show "sameSig (Inr (checkTwoPair xs)) (Inr (checkTwoPair ys))"
    using p by (intro sameSig_option checkTwoPair_sig)
  show "sameSig (Inr (checkPair xs)) (Inr (checkPair ys))"
    if "Inr (checkTwoPair xs) = (Inr None :: error + HandEvaluation option)"
    using p that by (intro sameSig_option checkPair_sig) simp_all
  show "sameResult (checkHighCard xs) (checkHighCard ys)"
    unfolding sameResult_def using p by (rule checkHighCard_sig)
qed

text \<open>
  The claim C8 as stated says that a reordered list gives the same result, with the same
  five selected cards.  A straight takes, for each of its ranks, the first card of that rank
  in the stable sort of the input: of two nines it selects the one that comes first.  The
  lists \<open>nineHighA\<close> and \<open>nineHighB\<close> hold the same cards, and the results differ in the
  nine they select.
\<close>

theorem evaluateHand_reorder_counterexample:
  "mset nineHighA = mset nineHighB \<and> length nineHighA = 6
   \<and> evaluateHand nineHighA \<noteq> evaluateHand nineHighB"
proof -
  have "mset nineHighA = mset nineHighB"
    by (simp add: nineHighA_def nineHighB_def add.commute)
  moreover have "length nineHighA = 6" by (simp add: nineHighA_def)
  moreover have "evaluateHand nineHighA \<noteq> evaluateHand nineHighB" by code_simp
  ultimately show ?thesis by simp
qed

lemma compareCards_ranks:
  "compareCards xs ys n = compareRanks (map (map_option rank) xs) (map (map_option rank) ys) n"
  by (induction xs ys n rule: compareCards.induct) auto

lemma compareHands_ranks:
  assumes "rankSig h = rankSig g"
  shows "compareHands h k = compareHands g k \<and> compareHands k h = compareHands k g"
  using assms by (simp add: compareHands_def rankSig_def Let_def compareCards_ranks)

text \<open>
  Claim C8, amended.  For every list of five to seven cards and every reordering of it,
  \<^verbatim>\<open>evaluateHand\<close> returns a hand on both, with the same ranking, the same description,
  and five selected cards of the same ranks position by position, so that
  \<^verbatim>\<open>compareHands\<close> gives the same answer for either against any hand.  Which card of a
  rank is selected, and the order of selected cards of one rank, follow the order of the
  input.
\<close>

theorem evaluateHand_reorder:
  assumes "mset xs = mset ys" "5 \<le> length xs" "length xs \<le> 7"
  shows "\<exists>h g. evaluateHand xs = Inr h \<and> evaluateHand ys = Inr g
           \<and> ranking h = ranking g
           \<and> description h = description g
           \<and> map (map_option rank) (cards h) = map (map_option rank) (cards g)
           \<and> (\<forall>k. compareHands h k = compareHands g k \<and> compareHands k h = compareHands k g)"
proof -
  have l: "length ys = length xs" using assms(1) by (metis size_mset)
  from evaluateHand_five[OF assms(2)] obtain h where h: "evaluateHand xs = Inr h" by blast
  from evaluateHand_five[of ys] assms(2) l obtain g where g: "evaluateHand ys = Inr g" by auto
  from findBestHand_sig[OF assms(1,3)] h g assms(2) l have "rankSig h = rankSig g"
    by (simp add: sameResult_def evaluateHand_def)
  with h g compareHands_ranks[of h g] show ?thesis by (auto simp: rankSig_def)
qed

theorem evaluateHand_reorder_witness:
  "mset nineHighA = mset nineHighB \<and> 5 \<le> length nineHighA \<and> length nineHighA \<le> 7
   \<and> (\<exists>h g. evaluateHand nineHighA = Inr h \<and> evaluateHand nineHighB = Inr g
           \<and> ranking h = ranking g
           \<and> description h = description g
           \<and> map (map_option rank) (cards h) = map (map_option rank) (cards g))"
proof -
  have a: "mset nineHighA = mset nineHighB"
    by (simp add: nineHighA_def nineHighB_def add.commute)
  have b: "5 \<le> length nineHighA" "length nineHighA \<le> 7" by (simp_all add: nineHighA_def)
  from evaluateHand_reorder[OF a b] a b show ?thesis by blast
qed

subsection \<open>The wheel\<close>

lemma no_other_rank: "filter (\<lambda>c. rank c \<notin> set RANKS) cs = []"
proof -
  have "r \<in> set RANKS" for r by (cases r) (simp_all add: RANKS_def)
  then show ?thesis by simp
qed

lemma total_by_rank:
  "rankCount cs R2 + rankCount cs R3 + rankCount cs R4 + rankCount cs R5 + rankCount cs R6 + rankCount cs R7 + rankCount cs R8
   + rankCount cs R9 + rankCount cs RT + rankCount cs RJ + rankCount cs RQ + rankCount cs RK + rankCount cs RA = length cs"
proof -
  have "distinct RANKS" by (simp add: RANKS_def)
  from rank_counts_total[OF this, of cs] show ?thesis
    unfolding no_other_rank by (simp add: RANKS_def)
qed














theorem evaluateHand_five_cards_witness:
  "5 \<le> length fiveCardWheel \<and> 5 \<le> length nineHighA
   \<and> (\<exists>h g r. evaluateHand fiveCardWheel = Inr h \<and> length (cards h) = 5
            \<and> (\<forall>c \<in> set (cards h). \<exists>x \<in> set fiveCardWheel. c = Some x)
            \<and> evaluateHand nineHighA = Inr g \<and> compareHands h g = Inr r)"
proof -
  have a: "5 \<le> length fiveCardWheel" by (simp add: fiveCardWheel_def)
  have b: "5 \<le> length nineHighA" by (simp add: nineHighA_def)
  from evaluateHand_five_cards[OF a b] a b show ?thesis by simp
qed

text \<open>
  With five cards on the board the count is 0; on the flop every one of the 47 unseen
  cards counts, because the filler card pairs the two on the board.
\<close>

theorem countOuts_bounds_witness:
  "5 \<le> length riverBoard \<and> countOuts heroAceKing riverBoard = Inr 0
   \<and> countOuts heroAceKing flopBoard = Inr 47
   \<and> (\<exists>n. countOuts heroAceKing flopBoard = Inr n
          \<and> n \<le> 52 - card (set (heroAceKing @ flopBoard)))"
proof -
  have a: "5 \<le> length riverBoard" by (simp add: riverBoard_def flopBoard_def)
  have f: "countOuts heroAceKing flopBoard = Inr 47" by code_simp
  from countOuts_bounds[of riverBoard heroAceKing] countOuts_bounds[of flopBoard heroAceKing] a f
  show ?thesis by simp
qed

end
